theory Spec2Isabelle
  imports Main "HOL-Library.Word"
begin

unbundle bit_operations_syntax

section \<open>Data model of pkg/internal/ebpf/instrumenter.go\<close>

text \<open>
  Machine integers of the source: \<open>int32\<close> process ids, \<open>uint64\<close> offsets and inode
  numbers, \<open>uintptr\<close> addresses (64 bits on the supported hosts), \<open>uint16\<close> and bytes
  for the byte-order helper.
\<close>

type_synonym int32 = "32 word"
type_synonym uint64 = "64 word"
type_synonym uintptr = "64 word"
type_synonym uint16 = "16 word"
type_synonym byte = "8 word"

text \<open>A compiled \<open>*ebpf.Program\<close> is opaque; it is identified by a number.\<close>

type_synonym program = nat

text \<open>A \<open>*link.Executable\<close> is identified by the path it was opened from.\<close>

datatype Executable = Executable string

text \<open>
  Errors are values. \<open>OSError\<close> is an error of the platform (opaque code); the other
  constructors are the wrappers the source builds with \<open>fmt.Errorf("...: %w", err)\<close>.
\<close>

datatype error =
    OSError nat
  | SettingUprobe error
  | SettingUretprobe error
  | SettingKprobe error
  | SettingKretprobe error
  | InstrumentingFunction string error

text \<open>
  Modelled from the spec: the type \<open>goexec.FuncOffsets\<close> is declared outside this file.
  An offset set is an entry-point byte offset plus an ordered sequence of return-point
  byte offsets. The source reads the fields \<open>Start\<close> and \<open>Returns\<close>; the entry offset
  is named \<open>StartOffset\<close> here because \<open>Start\<close> is also a field of the program pair.
\<close>

record FuncOffsets =
  StartOffset :: uint64
  Returns :: "uint64 list"

text \<open>
  Modelled from the spec: the type \<open>ebpfcommon.FunctionPrograms\<close> is declared outside
  this file. A function program pair is an optional on-entry program, an optional
  on-return program and the flag marking the pair as required.
\<close>

record FunctionPrograms =
  Required :: bool
  Start :: "program option"
  End :: "program option"

text \<open>
  Modelled from the spec: the type \<open>ebpfcommon.Probe\<close> is declared outside this file.
  A probe joins an offset set and a function program pair.
\<close>

record Probe =
  Offsets :: FuncOffsets
  Programs :: FunctionPrograms

text \<open>
  Modelled from the spec: the type \<open>goexec.Offsets\<close> is declared outside this file.
  The offset resolver maps a symbolic function name to its offset set; a name may be
  absent.
\<close>

record Offsets =
  Funcs :: "string \<rightharpoonup> FuncOffsets"

text \<open>The three fields of \<open>procfs.ProcMap\<close> that the source reads.\<close>

record ProcMap =
  StartAddr :: uintptr
  EndAddr :: uintptr
  Pathname :: string

text \<open>
  One call of the attachment primitive:
  \<^item> \<open>ExeUprobe exe symbol prog opts\<close> is \<open>exe.Uprobe(symbol, prog, opts)\<close>, where
    \<open>opts\<close> is \<open>None\<close> for a nil options pointer and \<open>Some a\<close> for
    \<open>&link.UprobeOptions{Address: a}\<close>;
  \<^item> \<open>ExeUretprobe exe symbol prog\<close> is \<open>exe.Uretprobe(symbol, prog, nil)\<close>;
  \<^item> \<open>Kprobe symbol prog\<close> is \<open>link.Kprobe(symbol, prog, nil)\<close>;
  \<^item> \<open>Kretprobe symbol prog\<close> is \<open>link.Kretprobe(symbol, prog, nil)\<close>.
\<close>

datatype attach_req =
    ExeUprobe Executable string program "uint64 option"
  | ExeUretprobe Executable string program
  | Kprobe string program
  | Kretprobe string program

text \<open>
  A release handle (\<open>io.Closer\<close>): the link created by one successful call of the
  attachment primitive. \<open>link_id\<close> is the position of that call among all calls made so
  far, so two handles created by different calls are different values.
\<close>

datatype closer = Link (link_id: nat) (link_req: attach_req)

text \<open>
  The instrumenter. Its two pointers, \<open>offsets\<close> and \<open>exe\<close>, are taken to be set.
\<close>

record instrumenter =
  offsets :: Offsets
  exe :: Executable
  closables :: "closer list"

text \<open>
  Modelled from the spec: the interfaces \<open>Tracer\<close> and \<open>KprobesTracer\<close> and their
  implementations are declared outside this file. The traced entity exposes the three
  probe catalogs, a sink that accepts a batch of release handles, and the registry of
  instrumented inodes. A Go map is iterated in an order chosen at run time: a catalog
  is the list of its entries in the order the loop visits them.
\<close>

record Tracer =
  GoProbes :: "(string \<times> FunctionPrograms) list"
  KProbes :: "(string \<times> FunctionPrograms) list"
  UProbes :: "(string \<times> (string \<times> FunctionPrograms) list) list"
  closers :: "closer list"
  instrumented_libs :: "uint64 set"

text \<open>
  Modelled from the spec: \<open>AddCloser\<close> is the sink that accepts a batch of release
  handles for later cleanup; the batch is appended.
\<close>

definition AddCloser :: "closer list \<Rightarrow> Tracer \<Rightarrow> Tracer" where
  "AddCloser c p = p\<lparr>closers := closers p @ c\<rparr>"

text \<open>
  Modelled from the spec: \<open>AlreadyInstrumentedLib\<close> is the query "is inode I already
  instrumented for this entity".
\<close>

definition AlreadyInstrumentedLib :: "Tracer \<Rightarrow> uint64 \<Rightarrow> bool" where
  "AlreadyInstrumentedLib p ino = (ino \<in> instrumented_libs p)"

text \<open>
  Modelled from the spec: \<open>RecordInstrumentedLib\<close> is the mutation "record inode I as
  instrumented"; the registry is insertion-only.
\<close>

definition RecordInstrumentedLib :: "uint64 \<Rightarrow> Tracer \<Rightarrow> Tracer" where
  "RecordInstrumentedLib ino p = p\<lparr>instrumented_libs := insert ino (instrumented_libs p)\<rparr>"

text \<open>
  The collaborators the source calls, taken as parameters:
  \<^item> \<open>FindLibMaps\<close> is \<open>exec.FindLibMaps\<close>, of Go type
    \<open>func(int32) ([]*procfs.ProcMap, error)\<close>;
  \<^item> \<open>LibPath\<close> is \<open>exec.LibPath\<close>, which returns a mapping or nil;
  \<^item> \<open>os_Stat\<close> is \<open>os.Stat\<close> followed by the type assertion
    \<open>info.Sys().(*syscall.Stat_t)\<close>: \<open>Inl e\<close> when \<open>os.Stat\<close> fails,
    \<open>Inr None\<close> when the assertion fails, \<open>Inr (Some ino)\<close> with the inode otherwise;
  \<^item> \<open>OpenExecutable\<close> is \<open>link.OpenExecutable\<close>;
  \<^item> \<open>link_attach\<close> decides one call of the attachment primitive from the calls made
    before it and the call itself: \<open>None\<close> is success, \<open>Some e\<close> the platform error.
\<close>

record os =
  FindLibMaps :: "int32 \<Rightarrow> error + ProcMap list"
  LibPath :: "string \<Rightarrow> ProcMap list \<Rightarrow> ProcMap option"
  os_Stat :: "string \<Rightarrow> error + uint64 option"
  OpenExecutable :: "string \<Rightarrow> error + Executable"
  link_attach :: "attach_req list \<Rightarrow> attach_req \<Rightarrow> error option"

text \<open>
  The state the methods mutate: the instrumenter \<open>i\<close>, the traced entity \<open>p\<close>, and
  two logs of what was asked of the platform: every call of the attachment primitive
  and every path given to \<open>link.OpenExecutable\<close>, in order.
\<close>

record state =
  inst :: instrumenter
  tracer :: Tracer
  attempts :: "attach_req list"
  opened :: "string list"

section \<open>The attachment primitive and the two state updates\<close>

definition attach :: "os \<Rightarrow> attach_req \<Rightarrow> state \<Rightarrow> (error + closer) \<times> state" where
  "attach w r s =
     (case link_attach w (attempts s) r of
        Some err \<Rightarrow> (Inl err, s\<lparr>attempts := attempts s @ [r]\<rparr>)
      | None \<Rightarrow> (Inr (Link (length (attempts s)) r), s\<lparr>attempts := attempts s @ [r]\<rparr>))"

text \<open>\<open>i.closables = append(i.closables, c)\<close>\<close>

definition append_closable :: "closer \<Rightarrow> state \<Rightarrow> state" where
  "append_closable c s = s\<lparr>inst := (inst s)\<lparr>closables := closables (inst s) @ [c]\<rparr>\<rparr>"

text \<open>\<open>p.AddCloser(i.closables...)\<close>\<close>

definition add_closables :: "state \<Rightarrow> state" where
  "add_closables s = s\<lparr>tracer := AddCloser (closables (inst s)) (tracer s)\<rparr>"

section \<open>Main-binary probes\<close>

text \<open>The loop of \<open>goprobe\<close> over \<open>probe.Offsets.Returns\<close>.\<close>

fun goprobe_returns :: "os \<Rightarrow> program \<Rightarrow> uint64 list \<Rightarrow> state \<Rightarrow> error option \<times> state" where
  "goprobe_returns w p [] s = (None, s)"
| "goprobe_returns w p (ret # rets) s =
     (case attach w (ExeUprobe (exe (inst s)) [] p (Some ret)) s of
        (Inl err, s1) \<Rightarrow> (Some (SettingUretprobe err), s1)
      | (Inr urp, s1) \<Rightarrow> goprobe_returns w p rets (append_closable urp s1))"

definition goprobe_start :: "os \<Rightarrow> Probe \<Rightarrow> state \<Rightarrow> error option \<times> state" where
  "goprobe_start w probe s =
     (case Start (Programs probe) of
        None \<Rightarrow> (None, s)
      | Some p \<Rightarrow>
          (case attach w (ExeUprobe (exe (inst s)) [] p (Some (StartOffset (Offsets probe)))) s of
             (Inl err, s1) \<Rightarrow> (Some (SettingUprobe err), s1)
           | (Inr up, s1) \<Rightarrow> (None, append_closable up s1)))"

definition goprobe :: "os \<Rightarrow> Probe \<Rightarrow> state \<Rightarrow> error option \<times> state" where
  "goprobe w probe s =
     (case goprobe_start w probe s of
        (Some err, s1) \<Rightarrow> (Some err, s1)
      | (None, s1) \<Rightarrow>
          (case End (Programs probe) of
             None \<Rightarrow> (None, s1)
           | Some p \<Rightarrow> goprobe_returns w p (Returns (Offsets probe)) s1))"

text \<open>The loop of \<open>goprobes\<close> over the entries of \<open>p.GoProbes()\<close>.\<close>

fun goprobes_loop :: "os \<Rightarrow> (string \<times> FunctionPrograms) list \<Rightarrow> state \<Rightarrow> error option \<times> state" where
  "goprobes_loop w [] s = (None, s)"
| "goprobes_loop w ((funcName, funcPrograms) # rest) s =
     (case Funcs (offsets (inst s)) funcName of
        None \<Rightarrow> goprobes_loop w rest s
      | Some offs \<Rightarrow>
          (case goprobe w \<lparr>Offsets = offs, Programs = funcPrograms\<rparr> s of
             (Some err, s1) \<Rightarrow> (Some (InstrumentingFunction funcName err), s1)
           | (None, s1) \<Rightarrow> goprobes_loop w rest (add_closables s1)))"

definition goprobes :: "os \<Rightarrow> state \<Rightarrow> error option \<times> state" where
  "goprobes w s = goprobes_loop w (GoProbes (tracer s)) s"

section \<open>Kernel probes\<close>

definition kprobe_start :: "os \<Rightarrow> string \<Rightarrow> FunctionPrograms \<Rightarrow> state \<Rightarrow> error option \<times> state" where
  "kprobe_start w funcName programs s =
     (case Start programs of
        None \<Rightarrow> (None, s)
      | Some p \<Rightarrow>
          (case attach w (Kprobe funcName p) s of
             (Inl err, s1) \<Rightarrow> (Some (SettingKprobe err), s1)
           | (Inr kp, s1) \<Rightarrow> (None, append_closable kp s1)))"

definition kprobe :: "os \<Rightarrow> string \<Rightarrow> FunctionPrograms \<Rightarrow> state \<Rightarrow> error option \<times> state" where
  "kprobe w funcName programs s =
     (case kprobe_start w funcName programs s of
        (Some err, s1) \<Rightarrow> (Some err, s1)
      | (None, s1) \<Rightarrow>
          (case End programs of
             None \<Rightarrow> (None, s1)
           | Some p \<Rightarrow>
               (case attach w (Kretprobe funcName p) s1 of
                  (Inl err, s2) \<Rightarrow> (Some (SettingKretprobe err), s2)
                | (Inr kp, s2) \<Rightarrow> (None, append_closable kp s2))))"

fun kprobes_loop :: "os \<Rightarrow> (string \<times> FunctionPrograms) list \<Rightarrow> state \<Rightarrow> error option \<times> state" where
  "kprobes_loop w [] s = (None, s)"
| "kprobes_loop w ((kfunc, kprobes) # rest) s =
     (case kprobe w kfunc kprobes s of
        (Some err, s1) \<Rightarrow> (Some (InstrumentingFunction kfunc err), s1)
      | (None, s1) \<Rightarrow> kprobes_loop w rest (add_closables s1))"

definition kprobes :: "os \<Rightarrow> state \<Rightarrow> error option \<times> state" where
  "kprobes w s = kprobes_loop w (KProbes (tracer s)) s"

section \<open>Library probes\<close>

definition uprobe_start :: "os \<Rightarrow> string \<Rightarrow> Executable \<Rightarrow> FunctionPrograms \<Rightarrow> state \<Rightarrow> error option \<times> state" where
  "uprobe_start w funcName libExe probe s =
     (case Start probe of
        None \<Rightarrow> (None, s)
      | Some p \<Rightarrow>
          (case attach w (ExeUprobe libExe funcName p None) s of
             (Inl err, s1) \<Rightarrow> (Some (SettingUprobe err), s1)
           | (Inr up, s1) \<Rightarrow> (None, append_closable up s1)))"

definition uprobe :: "os \<Rightarrow> string \<Rightarrow> Executable \<Rightarrow> FunctionPrograms \<Rightarrow> state \<Rightarrow> error option \<times> state" where
  "uprobe w funcName libExe probe s =
     (case uprobe_start w funcName libExe probe s of
        (Some err, s1) \<Rightarrow> (Some err, s1)
      | (None, s1) \<Rightarrow>
          (case End probe of
             None \<Rightarrow> (None, s1)
           | Some p \<Rightarrow>
               (case attach w (ExeUretprobe libExe funcName p) s1 of
                  (Inl err, s2) \<Rightarrow> (Some (SettingUretprobe err), s2)
                | (Inr up, s2) \<Rightarrow> (None, append_closable up s2))))"

text \<open>
  The inner loop of \<open>uprobes\<close> over the functions of one library. A failure of a pair
  that is not required is only logged, and the loop goes on to \<open>AddCloser\<close>.
\<close>

fun uprobes_funcs :: "os \<Rightarrow> Executable \<Rightarrow> (string \<times> FunctionPrograms) list \<Rightarrow> state \<Rightarrow> error option \<times> state" where
  "uprobes_funcs w libExe [] s = (None, s)"
| "uprobes_funcs w libExe ((funcName, funcPrograms) # rest) s =
     (case uprobe w funcName libExe funcPrograms s of
        (Some err, s1) \<Rightarrow>
          (if Required funcPrograms then (Some (InstrumentingFunction funcName err), s1)
           else uprobes_funcs w libExe rest (add_closables s1))
      | (None, s1) \<Rightarrow> uprobes_funcs w libExe rest (add_closables s1))"

subsection \<open>Formatting of the two paths\<close>

definition digit_char :: "nat \<Rightarrow> char" where
  "digit_char d = ''0123456789abcdef'' ! d"

function fmt_base :: "nat \<Rightarrow> nat \<Rightarrow> string" where
  "fmt_base b n =
     (if b < 2 \<or> n < b then [digit_char n] else fmt_base b (n div b) @ [digit_char (n mod b)])"
  by pat_completeness auto
termination
  by (relation "measure snd") auto

declare fmt_base.simps [simp del]

text \<open>The verb \<open>%d\<close> on an \<open>int32\<close> and the verb \<open>%x\<close> on a \<open>uintptr\<close>.\<close>

definition fmt_d :: "int32 \<Rightarrow> string" where
  "fmt_d i = (if sint i < 0 then CHR ''-'' # fmt_base 10 (nat (- sint i)) else fmt_base 10 (nat (sint i)))"

definition fmt_x :: "uintptr \<Rightarrow> string" where
  "fmt_x a = fmt_base 16 (unat a)"

text \<open>\<open>fmt.Sprintf("/proc/%d/exe", pid)\<close>\<close>

definition proc_exe_path :: "int32 \<Rightarrow> string" where
  "proc_exe_path pid = ''/proc/'' @ fmt_d pid @ ''/exe''"

text \<open>\<open>fmt.Sprintf("/proc/%d/map_files/%x-%x", pid, libMap.StartAddr, libMap.EndAddr)\<close>\<close>

definition map_files_path :: "int32 \<Rightarrow> ProcMap \<Rightarrow> string" where
  "map_files_path pid libMap =
     ''/proc/'' @ fmt_d pid @ ''/map_files/'' @ fmt_x (StartAddr libMap) @ ''-'' @ fmt_x (EndAddr libMap)"

subsection \<open>One library, then all of them\<close>

text \<open>
  The second half of the body of the outer loop: open the image at \<open>instrPath\<close>, run
  the inner loop, then record \<open>ino\<close> unless it is 0.
\<close>

definition uprobes_open :: "os \<Rightarrow> string \<Rightarrow> uint64 \<Rightarrow> (string \<times> FunctionPrograms) list \<Rightarrow> state \<Rightarrow> error option \<times> state" where
  "uprobes_open w instrPath ino pMap s =
     (case OpenExecutable w instrPath of
        Inl err \<Rightarrow> (Some err, s\<lparr>opened := opened s @ [instrPath]\<rparr>)
      | Inr libExe \<Rightarrow>
          (case uprobes_funcs w libExe pMap (s\<lparr>opened := opened s @ [instrPath]\<rparr>) of
             (Some err, s1) \<Rightarrow> (Some err, s1)
           | (None, s1) \<Rightarrow>
               (None, if ino \<noteq> 0 then s1\<lparr>tracer := RecordInstrumentedLib ino (tracer s1)\<rparr> else s1)))"

text \<open>
  The first half of the body of the outer loop: the choice of the attachment target
  for the library \<open>lib\<close>. The result \<open>None\<close> is the \<open>continue\<close> of the source (the
  mapping's inode is already instrumented); \<open>Some (instrPath, ino)\<close> are the values of
  the two variables when \<open>link.OpenExecutable\<close> is reached.
\<close>

definition lib_target :: "os \<Rightarrow> int32 \<Rightarrow> ProcMap list \<Rightarrow> string \<Rightarrow> Tracer \<Rightarrow> (string \<times> uint64) option" where
  "lib_target w pid maps lib p =
     (case LibPath w lib maps of
        Some libMap \<Rightarrow>
          (case os_Stat w (map_files_path pid libMap) of
             Inr (Some st_ino) \<Rightarrow>
               (if AlreadyInstrumentedLib p st_ino then None
                else Some (map_files_path pid libMap, st_ino))
           | Inr None \<Rightarrow> Some (map_files_path pid libMap, 0)
           | Inl err \<Rightarrow> Some (map_files_path pid libMap, 0))
      | None \<Rightarrow> Some (proc_exe_path pid, 0))"

text \<open>The body of the outer loop for the catalog entry \<open>(lib, pMap)\<close>.\<close>

definition uprobes_lib :: "os \<Rightarrow> int32 \<Rightarrow> ProcMap list \<Rightarrow> string \<Rightarrow> (string \<times> FunctionPrograms) list \<Rightarrow> state \<Rightarrow> error option \<times> state" where
  "uprobes_lib w pid maps lib pMap s =
     (case lib_target w pid maps lib (tracer s) of
        None \<Rightarrow> (None, s)
      | Some (instrPath, ino) \<Rightarrow> uprobes_open w instrPath ino pMap s)"

fun uprobes_loop :: "os \<Rightarrow> int32 \<Rightarrow> ProcMap list \<Rightarrow> (string \<times> (string \<times> FunctionPrograms) list) list \<Rightarrow> state \<Rightarrow> error option \<times> state" where
  "uprobes_loop w pid maps [] s = (None, s)"
| "uprobes_loop w pid maps ((lib, pMap) # rest) s =
     (case uprobes_lib w pid maps lib pMap s of
        (Some err, s1) \<Rightarrow> (Some err, s1)
      | (None, s1) \<Rightarrow> uprobes_loop w pid maps rest s1)"

definition processMaps :: "os \<Rightarrow> int32 \<Rightarrow> error + ProcMap list" where
  "processMaps w pid = FindLibMaps w pid"

definition uprobes :: "os \<Rightarrow> int32 \<Rightarrow> state \<Rightarrow> error option \<times> state" where
  "uprobes w pid s =
     (case processMaps w pid of
        Inl err \<Rightarrow> (Some err, s)
      | Inr maps \<Rightarrow>
          (if length maps = 0 then (None, s)
           else uprobes_loop w pid maps (UProbes (tracer s)) s))"

section \<open>Byte order\<close>

text \<open>
  The host's byte order decides how a \<open>uint16\<close> lies in memory: \<open>store16\<close> gives its
  two bytes in address order. \<open>isLittleEndian\<close> stores 1 and reads the byte at the
  lowest address.
\<close>

datatype byte_order = LittleEndianHost | BigEndianHost

definition store16 :: "byte_order \<Rightarrow> uint16 \<Rightarrow> byte list" where
  "store16 h a =
     (case h of
        LittleEndianHost \<Rightarrow> [ucast a, ucast (drop_bit 8 a)]
      | BigEndianHost \<Rightarrow> [ucast (drop_bit 8 a), ucast a])"

definition isLittleEndian :: "byte_order \<Rightarrow> bool" where
  "isLittleEndian h = (hd (store16 h 1) = 1)"

text \<open>\<open>binary.LittleEndian.PutUint16\<close> on a two-byte array, and \<open>binary.BigEndian.Uint16\<close>.\<close>

definition LittleEndian_PutUint16 :: "uint16 \<Rightarrow> byte \<times> byte" where
  "LittleEndian_PutUint16 v = (ucast v, ucast (drop_bit 8 v))"

definition BigEndian_Uint16 :: "byte \<times> byte \<Rightarrow> uint16" where
  "BigEndian_Uint16 b = (ucast (snd b)) OR (push_bit 8 (ucast (fst b)))"

definition htons :: "byte_order \<Rightarrow> uint16 \<Rightarrow> uint16" where
  "htons h a = (if isLittleEndian h then BigEndian_Uint16 (LittleEndian_PutUint16 a) else a)"

section \<open>Example inputs\<close>

text \<open>
  A process 42 whose memory map has one mapping, of \<open>/lib/libssl.so\<close>, backed by inode
  1234. The attachment primitive is a parameter of the example: \<open>never_fails\<close>,
  \<open>always_fails\<close>, or \<open>fails_at n\<close>, which fails the call number \<open>n\<close> (counted from 0)
  and no other.
\<close>

definition never_fails :: "attach_req list \<Rightarrow> attach_req \<Rightarrow> error option" where
  "never_fails history r = None"

definition always_fails :: "attach_req list \<Rightarrow> attach_req \<Rightarrow> error option" where
  "always_fails history r = Some (OSError 1)"

definition fails_at :: "nat \<Rightarrow> attach_req list \<Rightarrow> attach_req \<Rightarrow> error option" where
  "fails_at n history r = (if length history = n then Some (OSError 1) else None)"

definition ex_map :: ProcMap where
  "ex_map = \<lparr>StartAddr = 0x7f0000, EndAddr = 0x7f8000, Pathname = ''/lib/libssl.so''\<rparr>"

definition ex_os :: "(attach_req list \<Rightarrow> attach_req \<Rightarrow> error option) \<Rightarrow> os" where
  "ex_os att =
     \<lparr>FindLibMaps = (\<lambda>pid. Inr [ex_map]),
      LibPath = (\<lambda>lib maps. find (\<lambda>m. Pathname m = ''/lib/'' @ lib) maps),
      os_Stat = (\<lambda>path. Inr (Some 1234)),
      OpenExecutable = (\<lambda>path. Inr (Executable path)),
      link_attach = att\<rparr>"

text \<open>The same process when its memory map cannot be read, and when it is read as empty.\<close>

definition ex_os_unreadable :: os where
  "ex_os_unreadable = (ex_os never_fails)\<lparr>FindLibMaps := (\<lambda>pid. Inl (OSError 2))\<rparr>"

definition ex_os_no_maps :: os where
  "ex_os_no_maps = (ex_os never_fails)\<lparr>FindLibMaps := (\<lambda>pid. Inr [])\<rparr>"

definition entry_only :: "program \<Rightarrow> FunctionPrograms" where
  "entry_only p = \<lparr>Required = True, Start = Some p, End = None\<rparr>"

definition entry_and_return :: "program \<Rightarrow> program \<Rightarrow> FunctionPrograms" where
  "entry_and_return p q = \<lparr>Required = True, Start = Some p, End = Some q\<rparr>"

definition optional :: "FunctionPrograms \<Rightarrow> FunctionPrograms" where
  "optional progs = progs\<lparr>Required := False\<rparr>"

definition no_programs :: FunctionPrograms where
  "no_programs = \<lparr>Required = True, Start = None, End = None\<rparr>"

definition ex_f_offsets :: FuncOffsets where
  "ex_f_offsets = \<lparr>StartOffset = 0x10, Returns = [0x20, 0x30]\<rparr>"

definition ex_instrumenter :: instrumenter where
  "ex_instrumenter =
     \<lparr>offsets = \<lparr>Funcs = [''main.f'' \<mapsto> ex_f_offsets,
                          ''main.g'' \<mapsto> \<lparr>StartOffset = 0x40, Returns = [0x50]\<rparr>]\<rparr>,
      exe = Executable ''/proc/42/exe'',
      closables = []\<rparr>"

definition ex_tracer :: Tracer where
  "ex_tracer =
     \<lparr>GoProbes = [(''main.f'', entry_and_return 1 2), (''main.g'', entry_only 3)],
      KProbes = [(''tcp_connect'', entry_only 4)],
      UProbes = [(''libssl.so'',
                  [(''SSL_read'', optional (entry_only 6)), (''SSL_write'', entry_only 7)])],
      closers = [],
      instrumented_libs = {}\<rparr>"

definition ex_state :: state where
  "ex_state = \<lparr>inst = ex_instrumenter, tracer = ex_tracer, attempts = [], opened = []\<rparr>"

text \<open>
  The same state when the catalog asks for two libraries, \<open>libssl.so\<close> and then
  \<open>libcrypto.so\<close>, which no mapping of the process matches.
\<close>

definition ex_state_two_libs :: state where
  "ex_state_two_libs =
     ex_state\<lparr>tracer := ex_tracer\<lparr>UProbes :=
       [(''libssl.so'', [(''SSL_read'', optional (entry_only 6)), (''SSL_write'', entry_only 7)]),
        (''libcrypto.so'', [(''SHA1_Init'', optional (entry_only 8))])]\<rparr>\<rparr>"

text \<open>The same state when \<open>main.f\<close> is the only main-binary function of the catalog.\<close>

definition ex_state_f :: state where
  "ex_state_f = ex_state\<lparr>tracer := ex_tracer\<lparr>GoProbes := [(''main.f'', entry_and_return 1 2)]\<rparr>\<rparr>"

section \<open>Proof support\<close>

text \<open>
  \<open>grows s s' new\<close>: from \<open>s\<close> to \<open>s'\<close> the instrumenter's list of closables has
  grown by \<open>new\<close>, and nothing else of the instrumenter, the traced entity or the log of
  opened images has changed. The handles in \<open>new\<close> are numbered by attachment calls
  made between \<open>s\<close> and \<open>s'\<close>.
\<close>

definition grows :: "state \<Rightarrow> state \<Rightarrow> closer list \<Rightarrow> bool" where
  "grows s s' new \<longleftrightarrow>
     inst s' = (inst s)\<lparr>closables := closables (inst s) @ new\<rparr>
     \<and> tracer s' = tracer s \<and> opened s' = opened s
     \<and> length (attempts s) \<le> length (attempts s')
     \<and> list_all (\<lambda>c. length (attempts s) \<le> link_id c \<and> link_id c < length (attempts s')) new"

text \<open>
  \<open>has_inode w pid maps lib ino\<close>: the library has a mapping, and the inode of the
  mapped file is determined as \<open>ino\<close>.
\<close>

definition has_inode :: "os \<Rightarrow> int32 \<Rightarrow> ProcMap list \<Rightarrow> string \<Rightarrow> uint64 \<Rightarrow> bool" where
  "has_inode w pid maps lib ino \<longleftrightarrow>
     (case LibPath w lib maps of
        None \<Rightarrow> False
      | Some libMap \<Rightarrow> os_Stat w (map_files_path pid libMap) = Inr (Some ino))"

text \<open>
  Three readings of a log of attachment calls, for the loop over the functions of one
  library against the image \<open>libExe\<close>: every call in \<open>added\<close> is the entry or the return
  probe of a pair of \<open>fs\<close>; \<open>added\<close> has the entry probe of the pair and, unless an
  entry probe came first and \<open>ok\<close> is false, its return probe; the last call of \<open>log\<close>
  is a probe of the pair that the platform refused with the error that \<open>err\<close> wraps.
\<close>

definition within_pairs :: "Executable \<Rightarrow> (string \<times> FunctionPrograms) list \<Rightarrow> attach_req list \<Rightarrow> bool" where
  "within_pairs libExe fs added \<longleftrightarrow>
     (\<forall>a \<in> set added. \<exists>f progs. (f, progs) \<in> set fs
        \<and> ((\<exists>p. Start progs = Some p \<and> a = ExeUprobe libExe f p None)
           \<or> (\<exists>q. End progs = Some q \<and> a = ExeUretprobe libExe f q)))"

definition covers_pair :: "Executable \<Rightarrow> bool \<Rightarrow> string \<Rightarrow> FunctionPrograms \<Rightarrow> attach_req list \<Rightarrow> bool" where
  "covers_pair libExe ok f progs added \<longleftrightarrow>
     (\<forall>p. Start progs = Some p \<longrightarrow> ExeUprobe libExe f p None \<in> set added)
     \<and> (\<forall>q. End progs = Some q \<longrightarrow> Start progs = None \<or> ok
            \<longrightarrow> ExeUretprobe libExe f q \<in> set added)"

definition failed_at :: "os \<Rightarrow> Executable \<Rightarrow> string \<Rightarrow> FunctionPrograms \<Rightarrow> attach_req list \<Rightarrow> error \<Rightarrow> bool" where
  "failed_at w libExe f progs log err \<longleftrightarrow>
     (\<exists>hist a e. log = hist @ [a] \<and> link_attach w hist a = Some e
        \<and> ((\<exists>p. Start progs = Some p \<and> a = ExeUprobe libExe f p None \<and> err = SettingUprobe e)
           \<or> (\<exists>q. End progs = Some q \<and> a = ExeUretprobe libExe f q \<and> err = SettingUretprobe e)))"

section \<open>Theorems\<close>

lemma isLittleEndian_little: "isLittleEndian LittleEndianHost"
  by (simp add: isLittleEndian_def store16_def)

lemma isLittleEndian_big: "\<not> isLittleEndian BigEndianHost"
  by (simp add: isLittleEndian_def store16_def)

subsection \<open>One attachment, one function\<close>

lemma grows_refl: "grows s s []"
  by (simp add: grows_def)

lemma grows_trans: "grows s s1 a \<Longrightarrow> grows s1 s2 b \<Longrightarrow> grows s s2 (a @ b)"
  by (auto simp add: grows_def list_all_iff)

lemma attach_Inl:
  "attach w r s = (Inl err, s1) \<Longrightarrow> s1 = s\<lparr>attempts := attempts s @ [r]\<rparr>"
  by (auto simp: attach_def split: option.splits)

lemma attach_Inr:
  "attach w r s = (Inr c, s1) \<Longrightarrow>
     s1 = s\<lparr>attempts := attempts s @ [r]\<rparr> \<and> c = Link (length (attempts s)) r"
  by (auto simp: attach_def split: option.splits)

lemma attach_fail_grows: "attach w r s = (Inl err, s1) \<Longrightarrow> grows s s1 []"
  by (auto simp: grows_def dest!: attach_Inl)

lemma attach_ok_grows:
  "attach w r s = (Inr c, s1) \<Longrightarrow> grows s (append_closable c s1) [c]"
  by (auto simp: grows_def append_closable_def dest!: attach_Inr)

lemma attach_ok_attempts:
  "attach w r s = (Inr c, s1) \<Longrightarrow>
     attempts (append_closable c s1) = attempts s @ [link_req c] \<and> link_req c = r"
  by (auto simp: append_closable_def dest!: attach_Inr)

lemma goprobe_returns_grows:
  "goprobe_returns w p rets s = (r, s') \<Longrightarrow> \<exists>new. grows s s' new"
proof (induction rets arbitrary: s)
  case Nil
  then show ?case by (auto intro: grows_refl)
next
  case (Cons ret rets)
  show ?case
  proof (cases "attach w (ExeUprobe (exe (inst s)) [] p (Some ret)) s")
    case (Pair x s1)
    show ?thesis
    proof (cases x)
      case (Inl err)
      with Pair Cons.prems have "s' = s1" by simp
      with Pair Inl show ?thesis by (auto dest: attach_fail_grows)
    next
      case (Inr urp)
      with Pair Cons.prems have "goprobe_returns w p rets (append_closable urp s1) = (r, s')"
        by simp
      from Cons.IH [OF this] obtain new where "grows (append_closable urp s1) s' new" ..
      moreover from Pair Inr have "grows s (append_closable urp s1) [urp]"
        by (auto dest: attach_ok_grows)
      ultimately show ?thesis by (blast intro: grows_trans)
    qed
  qed
qed

lemma goprobe_returns_ok:
  "goprobe_returns w p rets s = (None, s') \<Longrightarrow>
     \<exists>new. grows s s' new \<and> attempts s' = attempts s @ map link_req new
       \<and> map link_req new = map (\<lambda>ret. ExeUprobe (exe (inst s)) [] p (Some ret)) rets"
proof (induction rets arbitrary: s)
  case Nil
  then show ?case by (auto intro: grows_refl)
next
  case (Cons ret rets)
  show ?case
  proof (cases "attach w (ExeUprobe (exe (inst s)) [] p (Some ret)) s")
    case (Pair x s1)
    show ?thesis
    proof (cases x)
      case (Inl err)
      with Pair Cons.prems show ?thesis by simp
    next
      case (Inr urp)
      let ?s2 = "append_closable urp s1"
      from Pair Inr Cons.prems have "goprobe_returns w p rets ?s2 = (None, s')"
        by simp
      from Cons.IH [OF this] obtain new where
        new: "grows ?s2 s' new" "attempts s' = attempts ?s2 @ map link_req new"
          "map link_req new = map (\<lambda>ret. ExeUprobe (exe (inst ?s2)) [] p (Some ret)) rets"
        by blast
      from Pair Inr have g: "grows s ?s2 [urp]"
        by (auto dest: attach_ok_grows)
      from Pair Inr have a: "attempts ?s2 = attempts s @ [link_req urp]"
        "link_req urp = ExeUprobe (exe (inst s)) [] p (Some ret)"
        by (auto dest: attach_ok_attempts)
      from g have e: "exe (inst ?s2) = exe (inst s)"
        by (simp add: grows_def)
      have "grows s s' (urp # new)"
        using grows_trans [OF g new(1)] by simp
      moreover have "attempts s' = attempts s @ map link_req (urp # new)"
        using new(2) a(1) by simp
      moreover have "map link_req (urp # new) =
          map (\<lambda>ret. ExeUprobe (exe (inst s)) [] p (Some ret)) (ret # rets)"
        using new(3) a(2) e by simp
      ultimately show ?thesis by blast
    qed
  qed
qed

lemma goprobe_start_grows:
  "goprobe_start w probe s = (r, s') \<Longrightarrow> \<exists>new. grows s s' new"
  by (auto simp: goprobe_start_def split: option.splits prod.splits sum.splits
      intro: grows_refl attach_fail_grows attach_ok_grows)

lemma goprobe_start_ok:
  "goprobe_start w probe s = (None, s') \<Longrightarrow>
     \<exists>new. grows s s' new \<and> attempts s' = attempts s @ map link_req new
       \<and> map link_req new =
           (case Start (Programs probe) of None \<Rightarrow> []
            | Some p \<Rightarrow> [ExeUprobe (exe (inst s)) [] p (Some (StartOffset (Offsets probe)))])"
proof (cases "Start (Programs probe)")
  case None
  assume "goprobe_start w probe s = (None, s')"
  with None have "s' = s" by (simp add: goprobe_start_def)
  with None show ?thesis by (auto intro: grows_refl)
next
  case (Some p)
  assume a: "goprobe_start w probe s = (None, s')"
  let ?r = "ExeUprobe (exe (inst s)) [] p (Some (StartOffset (Offsets probe)))"
  from a Some obtain up s1 where
    at: "attach w ?r s = (Inr up, s1)" and s': "s' = append_closable up s1"
    by (auto simp: goprobe_start_def split: prod.splits sum.splits)
  from at s' have "grows s s' [up]" by (auto dest: attach_ok_grows)
  moreover from at s' have "attempts s' = attempts s @ map link_req [up]"
    by (auto dest: attach_ok_attempts)
  moreover from at Some have "map link_req [up] =
           (case Start (Programs probe) of None \<Rightarrow> []
            | Some p \<Rightarrow> [ExeUprobe (exe (inst s)) [] p (Some (StartOffset (Offsets probe)))])"
    by (auto dest: attach_ok_attempts)
  ultimately show ?thesis by blast
qed

lemma goprobe_grows:
  "goprobe w probe s = (r, s') \<Longrightarrow> \<exists>new. grows s s' new"
proof -
  assume a: "goprobe w probe s = (r, s')"
  obtain r1 s1 where st: "goprobe_start w probe s = (r1, s1)" by (cases "goprobe_start w probe s")
  then obtain n1 where g1: "grows s s1 n1" by (auto dest: goprobe_start_grows)
  show ?thesis
  proof (cases r1)
    case (Some err)
    with a st have "s' = s1" by (simp add: goprobe_def)
    with g1 show ?thesis by blast
  next
    case None
    show ?thesis
    proof (cases "End (Programs probe)")
      case N: None
      with a st None have "s' = s1" by (simp add: goprobe_def)
      with g1 show ?thesis by blast
    next
      case (Some p)
      with a st None have "goprobe_returns w p (Returns (Offsets probe)) s1 = (r, s')"
        by (simp add: goprobe_def)
      then obtain n2 where "grows s1 s' n2" by (auto dest: goprobe_returns_grows)
      with g1 show ?thesis by (blast intro: grows_trans)
    qed
  qed
qed

lemma kprobe_start_grows:
  "kprobe_start w f progs s = (r, s') \<Longrightarrow> \<exists>new. grows s s' new"
  by (auto simp: kprobe_start_def split: option.splits prod.splits sum.splits
      intro: grows_refl attach_fail_grows attach_ok_grows)

lemma kprobe_grows:
  "kprobe w f progs s = (r, s') \<Longrightarrow> \<exists>new. grows s s' new"
proof -
  assume a: "kprobe w f progs s = (r, s')"
  obtain r1 s1 where st: "kprobe_start w f progs s = (r1, s1)"
    by (cases "kprobe_start w f progs s")
  then obtain n1 where g1: "grows s s1 n1" by (auto dest: kprobe_start_grows)
  have "\<exists>n2. grows s1 s' n2"
    using a st
    by (auto simp: kprobe_def split: option.splits prod.splits sum.splits
        intro: grows_refl attach_fail_grows attach_ok_grows)
  with g1 show ?thesis by (blast intro: grows_trans)
qed

lemma uprobe_start_grows:
  "uprobe_start w f libExe progs s = (r, s') \<Longrightarrow> \<exists>new. grows s s' new"
  by (auto simp: uprobe_start_def split: option.splits prod.splits sum.splits
      intro: grows_refl attach_fail_grows attach_ok_grows)

lemma uprobe_grows:
  "uprobe w f libExe progs s = (r, s') \<Longrightarrow> \<exists>new. grows s s' new"
proof -
  assume a: "uprobe w f libExe progs s = (r, s')"
  obtain r1 s1 where st: "uprobe_start w f libExe progs s = (r1, s1)"
    by (cases "uprobe_start w f libExe progs s")
  then obtain n1 where g1: "grows s s1 n1" by (auto dest: uprobe_start_grows)
  have "\<exists>n2. grows s1 s' n2"
    using a st
    by (auto simp: uprobe_def split: option.splits prod.splits sum.splits
        intro: grows_refl attach_fail_grows attach_ok_grows)
  with g1 show ?thesis by (blast intro: grows_trans)
qed

lemma goprobe_ok:
  assumes "goprobe w probe s = (None, s')"
  shows "\<exists>new. grows s s' new \<and> attempts s' = attempts s @ map link_req new
       \<and> map link_req new =
           (case Start (Programs probe) of None \<Rightarrow> []
            | Some p \<Rightarrow> [ExeUprobe (exe (inst s)) [] p (Some (StartOffset (Offsets probe)))])
           @ (case End (Programs probe) of None \<Rightarrow> []
              | Some p \<Rightarrow> map (\<lambda>ret. ExeUprobe (exe (inst s)) [] p (Some ret)) (Returns (Offsets probe)))"
proof -
  obtain r1 s1 where st: "goprobe_start w probe s = (r1, s1)"
    by (cases "goprobe_start w probe s")
  with assms have r1: "r1 = None"
    by (cases r1) (simp_all add: goprobe_def)
  from goprobe_start_ok [OF st [unfolded r1]] obtain n1 where
    n1: "grows s s1 n1" "attempts s1 = attempts s @ map link_req n1"
      "map link_req n1 = (case Start (Programs probe) of None \<Rightarrow> []
            | Some p \<Rightarrow> [ExeUprobe (exe (inst s)) [] p (Some (StartOffset (Offsets probe)))])"
    by blast
  from n1(1) have e: "exe (inst s1) = exe (inst s)" by (simp add: grows_def)
  show ?thesis
  proof (cases "End (Programs probe)")
    case None
    with assms st r1 have "s' = s1" by (simp add: goprobe_def)
    with n1 None show ?thesis by auto
  next
    case (Some p)
    with assms st r1 have "goprobe_returns w p (Returns (Offsets probe)) s1 = (None, s')"
      by (simp add: goprobe_def)
    from goprobe_returns_ok [OF this] obtain n2 where
      n2: "grows s1 s' n2" "attempts s' = attempts s1 @ map link_req n2"
        "map link_req n2 = map (\<lambda>ret. ExeUprobe (exe (inst s1)) [] p (Some ret)) (Returns (Offsets probe))"
      by blast
    have "grows s s' (n1 @ n2)" using n1(1) n2(1) by (rule grows_trans)
    moreover have "attempts s' = attempts s @ map link_req (n1 @ n2)"
      using n1(2) n2(2) by simp
    moreover have "map link_req (n1 @ n2) =
           (case Start (Programs probe) of None \<Rightarrow> []
            | Some p \<Rightarrow> [ExeUprobe (exe (inst s)) [] p (Some (StartOffset (Offsets probe)))])
           @ (case End (Programs probe) of None \<Rightarrow> []
              | Some p \<Rightarrow> map (\<lambda>ret. ExeUprobe (exe (inst s)) [] p (Some ret)) (Returns (Offsets probe)))"
      using n1(3) n2(3) e Some by simp
    ultimately show ?thesis by blast
  qed
qed

subsection \<open>The loop of goprobes\<close>

lemma add_closables_simps:
  "inst (add_closables s) = inst s"
  "closers (tracer (add_closables s)) = closers (tracer s) @ closables (inst s)"
  "instrumented_libs (tracer (add_closables s)) = instrumented_libs (tracer s)"
  "attempts (add_closables s) = attempts s"
  "opened (add_closables s) = opened s"
  by (simp_all add: add_closables_def AddCloser_def)

lemma grows_offsets: "grows s s' new \<Longrightarrow> offsets (inst s') = offsets (inst s)"
  by (simp add: grows_def)

lemma grows_closables: "grows s s' new \<Longrightarrow> closables (inst s') = closables (inst s) @ new"
  by (simp add: grows_def)

lemma grows_closers: "grows s s' new \<Longrightarrow> closers (tracer s') = closers (tracer s)"
  by (simp add: grows_def)

lemma goprobes_loop_append:
  "goprobes_loop w pre s = (None, s1) \<Longrightarrow>
     goprobes_loop w (pre @ rest) s = goprobes_loop w rest s1"
proof (induction pre arbitrary: s)
  case Nil
  then show ?case by simp
next
  case (Cons a pre)
  obtain f progs where a: "a = (f, progs)" by (cases a)
  from Cons.prems show ?case
    unfolding a
    by (auto split: option.splits prod.splits intro: Cons.IH)
qed

lemma goprobes_loop_offsets:
  "goprobes_loop w fs s = (r, s') \<Longrightarrow> offsets (inst s') = offsets (inst s)"
proof (induction fs arbitrary: s)
  case Nil
  then show ?case by simp
next
  case (Cons a fs)
  obtain f progs where a: "a = (f, progs)" by (cases a)
  show ?case
  proof (cases "Funcs (offsets (inst s)) f")
    case None
    with Cons.prems a have "goprobes_loop w fs s = (r, s')" by simp
    then show ?thesis by (rule Cons.IH)
  next
    case (Some offs)
    obtain r1 s1 where g: "goprobe w \<lparr>Offsets = offs, Programs = progs\<rparr> s = (r1, s1)"
      by (cases "goprobe w \<lparr>Offsets = offs, Programs = progs\<rparr> s")
    then obtain new where n: "grows s s1 new" by (auto dest: goprobe_grows)
    show ?thesis
    proof (cases r1)
      case None
      with Cons.prems a Some g have "goprobes_loop w fs (add_closables s1) = (r, s')" by simp
      from Cons.IH [OF this] n show ?thesis
        by (simp add: add_closables_simps grows_offsets)
    next
      case S: (Some err)
      with Cons.prems a Some g have "s' = s1" by simp
      with n show ?thesis by (simp add: grows_offsets)
    qed
  qed
qed

text \<open>The sink only grows.\<close>

lemma goprobes_loop_sink_prefix:
  "goprobes_loop w fs s = (r, s') \<Longrightarrow> \<exists>d. closers (tracer s') = closers (tracer s) @ d"
proof (induction fs arbitrary: s)
  case Nil
  then show ?case by simp
next
  case (Cons a fs)
  obtain f progs where a: "a = (f, progs)" by (cases a)
  show ?case
  proof (cases "Funcs (offsets (inst s)) f")
    case None
    with Cons.prems a have "goprobes_loop w fs s = (r, s')" by simp
    then show ?thesis by (rule Cons.IH)
  next
    case (Some offs)
    obtain r1 s1 where g: "goprobe w \<lparr>Offsets = offs, Programs = progs\<rparr> s = (r1, s1)"
      by (cases "goprobe w \<lparr>Offsets = offs, Programs = progs\<rparr> s")
    then obtain new where n: "grows s s1 new" by (auto dest: goprobe_grows)
    show ?thesis
    proof (cases r1)
      case None
      with Cons.prems a Some g have "goprobes_loop w fs (add_closables s1) = (r, s')" by simp
      from Cons.IH [OF this] n show ?thesis
        by (auto simp add: add_closables_simps grows_closers)
    next
      case S: (Some err)
      with Cons.prems a Some g have "s' = s1" by simp
      with n show ?thesis by (simp add: grows_closers)
    qed
  qed
qed

text \<open>After a run without error, the handles it created are in the sink.\<close>

lemma goprobes_loop_ok_handed:
  "goprobes_loop w fs s = (None, s') \<Longrightarrow>
     \<exists>new. closables (inst s') = closables (inst s) @ new \<and> set new \<subseteq> set (closers (tracer s'))"
proof (induction fs arbitrary: s)
  case Nil
  then show ?case by simp
next
  case (Cons a fs)
  obtain f progs where a: "a = (f, progs)" by (cases a)
  show ?case
  proof (cases "Funcs (offsets (inst s)) f")
    case None
    with Cons.prems a have "goprobes_loop w fs s = (None, s')" by simp
    then show ?thesis by (rule Cons.IH)
  next
    case (Some offs)
    obtain r1 s1 where g: "goprobe w \<lparr>Offsets = offs, Programs = progs\<rparr> s = (r1, s1)"
      by (cases "goprobe w \<lparr>Offsets = offs, Programs = progs\<rparr> s")
    then obtain n1 where n: "grows s s1 n1" by (auto dest: goprobe_grows)
    from Cons.prems a Some g have r1: "r1 = None" by (cases r1) simp_all
    with Cons.prems a Some g have run: "goprobes_loop w fs (add_closables s1) = (None, s')" by simp
    from Cons.IH [OF run] obtain n2 where
      n2: "closables (inst s') = closables (inst (add_closables s1)) @ n2"
        "set n2 \<subseteq> set (closers (tracer s'))" by blast
    from goprobes_loop_sink_prefix [OF run] obtain d where
      d: "closers (tracer s') = closers (tracer (add_closables s1)) @ d" by blast
    have "closables (inst s') = closables (inst s) @ (n1 @ n2)"
      using n2(1) n by (simp add: add_closables_simps grows_closables)
    moreover have "set (n1 @ n2) \<subseteq> set (closers (tracer s'))"
      using n2(2) d n by (auto simp add: add_closables_simps grows_closables)
    ultimately show ?thesis by blast
  qed
qed

lemma count_list_append': "count_list (xs @ ys) h = count_list xs h + count_list ys h"
  by (induction xs) auto

subsection \<open>Handles delivered again\<close>

lemma grows_old_handle:
  assumes "grows s s' new" and "link_id h < length (attempts s)"
  shows "count_list new h = 0"
proof -
  from assms have "h \<notin> set new"
    by (auto simp add: grows_def list_all_iff)
  then show ?thesis by simp
qed

lemma grows_attempts: "grows s s' new \<Longrightarrow> length (attempts s) \<le> length (attempts s')"
  by (simp add: grows_def)

lemma step_redelivers:
  assumes "grows s s1 new" and "link_id h < length (attempts s)"
  shows "count_list (closers (tracer s1)) h = count_list (closers (tracer s)) h"
    and "count_list (closables (inst s1)) h = count_list (closables (inst s)) h"
    and "link_id h < length (attempts s1)"
proof -
  from assms have z: "count_list new h = 0" by (rule grows_old_handle)
  from assms(1) show "count_list (closers (tracer s1)) h = count_list (closers (tracer s)) h"
    by (simp add: grows_closers)
  from assms(1) z show "count_list (closables (inst s1)) h = count_list (closables (inst s)) h"
    by (simp add: grows_closables count_list_append')
  from grows_attempts [OF assms(1)] assms(2) show "link_id h < length (attempts s1)"
    by simp
qed

lemma goprobes_loop_redelivers_exactly:
  "goprobes_loop w fs s = (None, s') \<Longrightarrow> link_id h < length (attempts s) \<Longrightarrow>
   offsets (inst s) = offs \<Longrightarrow>
     count_list (closers (tracer s')) h =
       count_list (closers (tracer s)) h
       + count_list (closables (inst s)) h
           * length (filter (\<lambda>(f, progs). Funcs offs f \<noteq> None) fs)"
proof (induction fs arbitrary: s)
  case Nil
  then show ?case by simp
next
  case (Cons a fs)
  obtain f progs where a: "a = (f, progs)" by (cases a)
  show ?case
  proof (cases "Funcs (offsets (inst s)) f")
    case None
    with Cons.prems a have "goprobes_loop w fs s = (None, s')" by simp
    from Cons.IH [OF this Cons.prems(2,3)] None a Cons.prems(3) show ?thesis by simp
  next
    case (Some fo)
    obtain r1 s1 where g: "goprobe w \<lparr>Offsets = fo, Programs = progs\<rparr> s = (r1, s1)"
      by (cases "goprobe w \<lparr>Offsets = fo, Programs = progs\<rparr> s")
    then obtain n1 where n: "grows s s1 n1" by (auto dest: goprobe_grows)
    from Cons.prems a Some g have r1: "r1 = None" by (cases r1) simp_all
    with Cons.prems a Some g have run: "goprobes_loop w fs (add_closables s1) = (None, s')" by simp
    note st = step_redelivers [OF n Cons.prems(2)]
    have h': "link_id h < length (attempts (add_closables s1))"
      using st(3) by (simp add: add_closables_simps)
    have o': "offsets (inst (add_closables s1)) = offs"
      using n Cons.prems(3) by (simp add: add_closables_simps grows_offsets)
    from Cons.IH [OF run h' o']
    have "count_list (closers (tracer s')) h =
       count_list (closers (tracer s)) h + count_list (closables (inst s)) h
       + count_list (closables (inst s)) h
           * length (filter (\<lambda>(f, progs). Funcs offs f \<noteq> None) fs)"
      by (simp add: add_closables_simps count_list_append' st(1,2))
    with Some a Cons.prems(3) show ?thesis by simp
  qed
qed

lemma kprobes_loop_redelivers_exactly:
  "kprobes_loop w fs s = (None, s') \<Longrightarrow> link_id h < length (attempts s) \<Longrightarrow>
     count_list (closers (tracer s')) h =
       count_list (closers (tracer s)) h + count_list (closables (inst s)) h * length fs"
proof (induction fs arbitrary: s)
  case Nil
  then show ?case by simp
next
  case (Cons a fs)
  obtain f progs where a: "a = (f, progs)" by (cases a)
  obtain r1 s1 where g: "kprobe w f progs s = (r1, s1)"
    by (cases "kprobe w f progs s")
  then obtain n1 where n: "grows s s1 n1" by (auto dest: kprobe_grows)
  from Cons.prems a g have r1: "r1 = None" by (cases r1) simp_all
  with Cons.prems a g have run: "kprobes_loop w fs (add_closables s1) = (None, s')" by simp
  note st = step_redelivers [OF n Cons.prems(2)]
  have h': "link_id h < length (attempts (add_closables s1))"
    using st(3) by (simp add: add_closables_simps)
  from Cons.IH [OF run h'] show ?case
    by (simp add: add_closables_simps count_list_append' st(1,2))
qed

lemma uprobes_funcs_redelivers_exactly:
  "uprobes_funcs w libExe fs s = (None, s') \<Longrightarrow> link_id h < length (attempts s) \<Longrightarrow>
     count_list (closers (tracer s')) h =
       count_list (closers (tracer s)) h + count_list (closables (inst s)) h * length fs"
proof (induction fs arbitrary: s)
  case Nil
  then show ?case by simp
next
  case (Cons a fs)
  obtain f progs where a: "a = (f, progs)" by (cases a)
  obtain r1 s1 where g: "uprobe w f libExe progs s = (r1, s1)"
    by (cases "uprobe w f libExe progs s")
  then obtain n1 where n: "grows s s1 n1" by (auto dest: uprobe_grows)
  from Cons.prems a g have run: "uprobes_funcs w libExe fs (add_closables s1) = (None, s')"
    by (cases r1) (simp_all split: if_splits)
  note st = step_redelivers [OF n Cons.prems(2)]
  have h': "link_id h < length (attempts (add_closables s1))"
    using st(3) by (simp add: add_closables_simps)
  from Cons.IH [OF run h'] show ?case
    by (simp add: add_closables_simps count_list_append' st(1,2))
qed

subsection \<open>The inner loop of uprobes\<close>

lemma grows_registry: "grows s s' new \<Longrightarrow> instrumented_libs (tracer s') = instrumented_libs (tracer s)"
  by (simp add: grows_def)

lemma grows_opened: "grows s s' new \<Longrightarrow> opened s' = opened s"
  by (simp add: grows_def)

lemma uprobes_funcs_append:
  "uprobes_funcs w libExe pre s = (None, s1) \<Longrightarrow>
     uprobes_funcs w libExe (pre @ rest) s = uprobes_funcs w libExe rest s1"
proof (induction pre arbitrary: s)
  case Nil
  then show ?case by simp
next
  case (Cons a pre)
  obtain f progs where a: "a = (f, progs)" by (cases a)
  from Cons.prems show ?case
    unfolding a
    by (auto split: option.splits prod.splits if_splits intro: Cons.IH)
qed

text \<open>What the inner loop leaves alone, whatever its result.\<close>

lemma uprobes_funcs_frame:
  "uprobes_funcs w libExe fs s = (r, s') \<Longrightarrow>
     instrumented_libs (tracer s') = instrumented_libs (tracer s)
     \<and> opened s' = opened s
     \<and> (\<exists>d. closers (tracer s') = closers (tracer s) @ d)
     \<and> (\<exists>new. closables (inst s') = closables (inst s) @ new)"
proof (induction fs arbitrary: s)
  case Nil
  then show ?case by simp
next
  case (Cons a fs)
  obtain f progs where a: "a = (f, progs)" by (cases a)
  obtain r1 s1 where g: "uprobe w f libExe progs s = (r1, s1)"
    by (cases "uprobe w f libExe progs s")
  then obtain n1 where n: "grows s s1 n1" by (auto dest: uprobe_grows)
  show ?case
  proof (cases "r1 \<noteq> None \<and> Required progs")
    case True
    with Cons.prems a g have "s' = s1" by auto
    with n show ?thesis
      by (simp add: grows_registry grows_opened grows_closers grows_closables)
  next
    case False
    with Cons.prems a g have run: "uprobes_funcs w libExe fs (add_closables s1) = (r, s')"
      by (cases r1) (auto split: if_splits)
    from Cons.IH [OF run] n show ?thesis
      by (auto simp add: add_closables_simps grows_registry grows_opened grows_closers grows_closables)
  qed
qed

text \<open>The inner loop fails exactly when it reaches a required pair whose attachment fails.\<close>

lemma uprobes_funcs_error_iff:
  "(\<exists>err s'. uprobes_funcs w libExe fs s = (Some err, s')) \<longleftrightarrow>
   (\<exists>pre funcName funcPrograms post s1 err s2.
      fs = pre @ (funcName, funcPrograms) # post
      \<and> uprobes_funcs w libExe pre s = (None, s1)
      \<and> Required funcPrograms
      \<and> uprobe w funcName libExe funcPrograms s1 = (Some err, s2))"
proof (induction fs arbitrary: s)
  case Nil
  then show ?case by simp
next
  case (Cons a fs)
  obtain f progs where a: "a = (f, progs)" by (cases a)
  obtain r1 s1 where g: "uprobe w f libExe progs s = (r1, s1)"
    by (cases "uprobe w f libExe progs s")
  show ?case
  proof (cases "r1 \<noteq> None \<and> Required progs")
    case True
    then obtain e where e: "r1 = Some e" by auto
    with True a g have "uprobes_funcs w libExe (a # fs) s = (Some (InstrumentingFunction f e), s1)"
      by simp
    moreover have "a # fs = [] @ (f, progs) # fs" using a by simp
    moreover have "uprobes_funcs w libExe [] s = (None, s)" by simp
    ultimately show ?thesis using True g e by blast
  next
    case False
    then have step: "uprobes_funcs w libExe (a # fs) s = uprobes_funcs w libExe fs (add_closables s1)"
      using a g by (cases r1) auto
    have pre1: "uprobes_funcs w libExe [a] s = (None, add_closables s1)"
      using False a g by (cases r1) auto
    show ?thesis
    proof
      assume "\<exists>err s'. uprobes_funcs w libExe (a # fs) s = (Some err, s')"
      with step have "\<exists>err s'. uprobes_funcs w libExe fs (add_closables s1) = (Some err, s')"
        by simp
      with Cons.IH [of "add_closables s1"] obtain pre fn fp post t1 err t2 where
        x: "fs = pre @ (fn, fp) # post" "uprobes_funcs w libExe pre (add_closables s1) = (None, t1)"
           "Required fp" "uprobe w fn libExe fp t1 = (Some err, t2)"
        by blast
      have "a # fs = (a # pre) @ (fn, fp) # post" using x(1) by simp
      moreover have "uprobes_funcs w libExe (a # pre) s = (None, t1)"
        using uprobes_funcs_append [OF pre1, of pre] x(2) by simp
      ultimately show "\<exists>pre funcName funcPrograms post s1 err s2.
        a # fs = pre @ (funcName, funcPrograms) # post
        \<and> uprobes_funcs w libExe pre s = (None, s1)
        \<and> Required funcPrograms
        \<and> uprobe w funcName libExe funcPrograms s1 = (Some err, s2)"
        using x(3,4) by blast
    next
      assume "\<exists>pre funcName funcPrograms post s1 err s2.
        a # fs = pre @ (funcName, funcPrograms) # post
        \<and> uprobes_funcs w libExe pre s = (None, s1)
        \<and> Required funcPrograms
        \<and> uprobe w funcName libExe funcPrograms s1 = (Some err, s2)"
      then obtain pre fn fp post t1 err t2 where
        x: "a # fs = pre @ (fn, fp) # post" "uprobes_funcs w libExe pre s = (None, t1)"
           "Required fp" "uprobe w fn libExe fp t1 = (Some err, t2)"
        by blast
      have "pre \<noteq> []"
      proof
        assume "pre = []"
        with x(1,2) a have "fn = f" "fp = progs" "t1 = s" by auto
        with x(3,4) g False show False by auto
      qed
      then obtain pre' where pre': "pre = a # pre'" using x(1) by (cases pre) auto
      with x(1) have fs: "fs = pre' @ (fn, fp) # post" by simp
      from x(2) pre' have "uprobes_funcs w libExe pre' (add_closables s1) = (None, t1)"
        using uprobes_funcs_append [OF pre1, of pre'] by simp
      with fs x(3,4) Cons.IH [of "add_closables s1"]
      have "\<exists>err s'. uprobes_funcs w libExe fs (add_closables s1) = (Some err, s')"
        by blast
      with step show "\<exists>err s'. uprobes_funcs w libExe (a # fs) s = (Some err, s')"
        by simp
    qed
  qed
qed

subsection \<open>The registry of instrumented libraries\<close>

lemma uprobes_open_registry:
  assumes "uprobes_open w instrPath ino pMap s = (r, s')"
  shows "instrumented_libs (tracer s') =
           (if r = None \<and> ino \<noteq> 0 then insert ino (instrumented_libs (tracer s))
            else instrumented_libs (tracer s))"
proof (cases "OpenExecutable w instrPath")
  case (Inl err)
  with assms have "r = Some err" "s' = s\<lparr>opened := opened s @ [instrPath]\<rparr>"
    by (simp_all add: uprobes_open_def)
  then show ?thesis by simp
next
  case (Inr libExe)
  let ?s0 = "s\<lparr>opened := opened s @ [instrPath]\<rparr>"
  obtain r1 s1 where f: "uprobes_funcs w libExe pMap ?s0 = (r1, s1)"
    by (cases "uprobes_funcs w libExe pMap ?s0")
  from uprobes_funcs_frame [OF f]
  have reg: "instrumented_libs (tracer s1) = instrumented_libs (tracer s)" by simp
  show ?thesis
  proof (cases r1)
    case None
    with assms Inr f have r: "r = None"
      and s': "s' = (if ino \<noteq> 0 then s1\<lparr>tracer := RecordInstrumentedLib ino (tracer s1)\<rparr> else s1)"
      by (simp_all add: uprobes_open_def)
    show ?thesis
    proof (cases "ino = 0")
      case True
      with r s' reg show ?thesis by simp
    next
      case False
      with s' have "tracer s' = RecordInstrumentedLib ino (tracer s1)" by simp
      with r False reg show ?thesis by (simp add: RecordInstrumentedLib_def)
    qed
  next
    case (Some err)
    with assms Inr f have "r = Some err" "s' = s1"
      by (simp_all add: uprobes_open_def)
    with reg show ?thesis by simp
  qed
qed

lemma uprobes_lib_skip:
  "lib_target w pid maps lib (tracer s) = None \<Longrightarrow> uprobes_lib w pid maps lib pMap s = (None, s)"
  by (simp add: uprobes_lib_def)

lemma lib_target_None_iff:
  "lib_target w pid maps lib p = None \<longleftrightarrow>
     (\<exists>libMap ino. LibPath w lib maps = Some libMap
        \<and> os_Stat w (map_files_path pid libMap) = Inr (Some ino)
        \<and> AlreadyInstrumentedLib p ino)"
  by (auto simp: lib_target_def split: option.splits sum.splits)

lemma lib_target_Some:
  "lib_target w pid maps lib p = Some (instrPath, ino) \<Longrightarrow> ino \<noteq> 0 \<Longrightarrow>
     \<exists>libMap. LibPath w lib maps = Some libMap
        \<and> os_Stat w (map_files_path pid libMap) = Inr (Some ino)
        \<and> instrPath = map_files_path pid libMap
        \<and> \<not> AlreadyInstrumentedLib p ino"
  by (auto simp: lib_target_def split: option.splits sum.splits if_splits)

lemma uprobes_lib_registry_mono:
  assumes "uprobes_lib w pid maps lib pMap s = (r, s')"
  shows "instrumented_libs (tracer s) \<subseteq> instrumented_libs (tracer s')"
proof (cases "lib_target w pid maps lib (tracer s)")
  case None
  with assms show ?thesis by (simp add: uprobes_lib_def)
next
  case (Some t)
  obtain instrPath ino where t: "t = (instrPath, ino)" by (cases t)
  with assms Some have "uprobes_open w instrPath ino pMap s = (r, s')"
    by (simp add: uprobes_lib_def)
  from uprobes_open_registry [OF this] show ?thesis by (auto split: if_splits)
qed

lemma uprobes_loop_registry_mono:
  "uprobes_loop w pid maps cat s = (r, s') \<Longrightarrow>
     instrumented_libs (tracer s) \<subseteq> instrumented_libs (tracer s')"
proof (induction cat arbitrary: s)
  case Nil
  then show ?case by simp
next
  case (Cons a cat)
  obtain lib pMap where a: "a = (lib, pMap)" by (cases a)
  obtain r1 s1 where l: "uprobes_lib w pid maps lib pMap s = (r1, s1)"
    by (cases "uprobes_lib w pid maps lib pMap s")
  note m = uprobes_lib_registry_mono [OF l]
  show ?case
  proof (cases r1)
    case None
    with Cons.prems a l have "uprobes_loop w pid maps cat s1 = (r, s')" by simp
    from Cons.IH [OF this] m show ?thesis by blast
  next
    case (Some err)
    with Cons.prems a l have "s' = s1" by simp
    with m show ?thesis by simp
  qed
qed

lemma uprobes_lib_ok_recorded:
  assumes "uprobes_lib w pid maps lib pMap s = (None, s')"
    and "has_inode w pid maps lib ino" and "ino \<noteq> 0"
  shows "ino \<in> instrumented_libs (tracer s')"
proof (cases "lib_target w pid maps lib (tracer s)")
  case None
  with assms(2) have "ino \<in> instrumented_libs (tracer s)"
    by (auto simp: lib_target_None_iff has_inode_def AlreadyInstrumentedLib_def)
  with uprobes_lib_registry_mono [OF assms(1)] show ?thesis by blast
next
  case (Some t)
  obtain instrPath ino' where t: "t = (instrPath, ino')" by (cases t)
  from Some t assms(2) have "ino' = ino"
    by (auto simp: lib_target_def has_inode_def split: option.splits sum.splits if_splits)
  with assms(1) Some t have "uprobes_open w instrPath ino pMap s = (None, s')"
    by (simp add: uprobes_lib_def)
  from uprobes_open_registry [OF this] assms(3) show ?thesis by simp
qed

lemma uprobes_loop_ok_recorded:
  "uprobes_loop w pid maps cat s = (None, s') \<Longrightarrow> (lib, pMap) \<in> set cat \<Longrightarrow>
   has_inode w pid maps lib ino \<Longrightarrow> ino \<noteq> 0 \<Longrightarrow> ino \<in> instrumented_libs (tracer s')"
proof (induction cat arbitrary: s)
  case Nil
  then show ?case by simp
next
  case (Cons a cat)
  obtain lib1 pMap1 where a: "a = (lib1, pMap1)" by (cases a)
  obtain r1 s1 where l: "uprobes_lib w pid maps lib1 pMap1 s = (r1, s1)"
    by (cases "uprobes_lib w pid maps lib1 pMap1 s")
  with Cons.prems(1) a have r1: "r1 = None" by (cases r1) simp_all
  with Cons.prems(1) a l have run: "uprobes_loop w pid maps cat s1 = (None, s')" by simp
  show ?case
  proof (cases "(lib, pMap) = a")
    case True
    with a l r1 Cons.prems(3,4) have "ino \<in> instrumented_libs (tracer s1)"
      by (auto dest: uprobes_lib_ok_recorded)
    with uprobes_loop_registry_mono [OF run] show ?thesis by blast
  next
    case False
    with Cons.prems(2) have "(lib, pMap) \<in> set cat" by simp
    from Cons.IH [OF run this Cons.prems(3,4)] show ?thesis .
  qed
qed

lemma uprobes_loop_all_skipped:
  "(\<And>lib pMap. (lib, pMap) \<in> set cat \<Longrightarrow> lib_target w pid maps lib (tracer s) = None) \<Longrightarrow>
     uprobes_loop w pid maps cat s = (None, s)"
proof (induction cat)
  case Nil
  then show ?case by simp
next
  case (Cons a cat)
  obtain lib pMap where a: "a = (lib, pMap)" by (cases a)
  from Cons.prems [of lib pMap] a have "uprobes_lib w pid maps lib pMap s = (None, s)"
    by (simp add: uprobes_lib_skip)
  moreover have "uprobes_loop w pid maps cat s = (None, s)"
  proof (rule Cons.IH)
    fix lib' pMap'
    assume "(lib', pMap') \<in> set cat"
    then have "(lib', pMap') \<in> set (a # cat)" by simp
    then show "lib_target w pid maps lib' (tracer s) = None" by (rule Cons.prems)
  qed
  ultimately show ?case using a by simp
qed

lemma uprobes_funcs_catalog:
  "uprobes_funcs w libExe fs s = (r, s') \<Longrightarrow> UProbes (tracer s') = UProbes (tracer s)"
proof (induction fs arbitrary: s)
  case Nil
  then show ?case by simp
next
  case (Cons a fs)
  obtain f progs where a: "a = (f, progs)" by (cases a)
  obtain r1 s1 where g: "uprobe w f libExe progs s = (r1, s1)"
    by (cases "uprobe w f libExe progs s")
  then obtain n1 where n: "grows s s1 n1" by (auto dest: uprobe_grows)
  then have t: "tracer s1 = tracer s" by (simp add: grows_def)
  show ?case
  proof (cases "r1 \<noteq> None \<and> Required progs")
    case True
    with Cons.prems a g have "s' = s1" by auto
    with t show ?thesis by simp
  next
    case False
    with Cons.prems a g have run: "uprobes_funcs w libExe fs (add_closables s1) = (r, s')"
      by (cases r1) (auto split: if_splits)
    from Cons.IH [OF run] t show ?thesis
      by (simp add: add_closables_def AddCloser_def)
  qed
qed

lemma uprobes_open_catalog:
  assumes "uprobes_open w instrPath ino pMap s = (r, s')"
  shows "UProbes (tracer s') = UProbes (tracer s)"
proof (cases "OpenExecutable w instrPath")
  case (Inl err)
  with assms have "s' = s\<lparr>opened := opened s @ [instrPath]\<rparr>"
    by (simp_all add: uprobes_open_def)
  then show ?thesis by simp
next
  case (Inr libExe)
  let ?s0 = "s\<lparr>opened := opened s @ [instrPath]\<rparr>"
  obtain r1 s1 where f: "uprobes_funcs w libExe pMap ?s0 = (r1, s1)"
    by (cases "uprobes_funcs w libExe pMap ?s0")
  from uprobes_funcs_catalog [OF f]
  have c: "UProbes (tracer s1) = UProbes (tracer s)" by simp
  show ?thesis
  proof (cases r1)
    case None
    with assms Inr f have
      s': "s' = (if ino \<noteq> 0 then s1\<lparr>tracer := RecordInstrumentedLib ino (tracer s1)\<rparr> else s1)"
      by (simp_all add: uprobes_open_def)
    then have "UProbes (tracer s') = UProbes (tracer s1)"
      by (simp add: RecordInstrumentedLib_def)
    with c show ?thesis by simp
  next
    case (Some err)
    with assms Inr f have "s' = s1"
      by (simp_all add: uprobes_open_def)
    with c show ?thesis by simp
  qed
qed

lemma uprobes_lib_catalog:
  assumes "uprobes_lib w pid maps lib pMap s = (r, s')"
  shows "UProbes (tracer s') = UProbes (tracer s)"
proof (cases "lib_target w pid maps lib (tracer s)")
  case None
  with assms show ?thesis by (simp add: uprobes_lib_def)
next
  case (Some t)
  obtain instrPath ino where t: "t = (instrPath, ino)" by (cases t)
  with assms Some have "uprobes_open w instrPath ino pMap s = (r, s')"
    by (simp add: uprobes_lib_def)
  then show ?thesis by (rule uprobes_open_catalog)
qed

lemma uprobes_loop_catalog:
  "uprobes_loop w pid maps cat s = (r, s') \<Longrightarrow> UProbes (tracer s') = UProbes (tracer s)"
proof (induction cat arbitrary: s)
  case Nil
  then show ?case by simp
next
  case (Cons a cat)
  obtain lib pMap where a: "a = (lib, pMap)" by (cases a)
  obtain r1 s1 where l: "uprobes_lib w pid maps lib pMap s = (r1, s1)"
    by (cases "uprobes_lib w pid maps lib pMap s")
  note m = uprobes_lib_catalog [OF l]
  show ?case
  proof (cases r1)
    case None
    with Cons.prems a l have "uprobes_loop w pid maps cat s1 = (r, s')" by simp
    from Cons.IH [OF this] m show ?thesis by simp
  next
    case (Some err)
    with Cons.prems a l have "s' = s1" by simp
    with m show ?thesis by simp
  qed
qed

lemma uprobes_open_no_inode:
  "uprobes_open w instrPath 0 pMap s =
     (case OpenExecutable w instrPath of
        Inl err \<Rightarrow> (Some err, s\<lparr>opened := opened s @ [instrPath]\<rparr>)
      | Inr libExe \<Rightarrow> uprobes_funcs w libExe pMap (s\<lparr>opened := opened s @ [instrPath]\<rparr>))"
  by (simp add: uprobes_open_def split: sum.splits prod.splits option.splits)

lemma uprobes_open_opened:
  assumes "uprobes_open w instrPath ino pMap s = (r, s')"
  shows "opened s' = opened s @ [instrPath]"
proof (cases "OpenExecutable w instrPath")
  case (Inl err)
  with assms have "s' = s\<lparr>opened := opened s @ [instrPath]\<rparr>"
    by (simp_all add: uprobes_open_def)
  then show ?thesis by simp
next
  case (Inr libExe)
  let ?s0 = "s\<lparr>opened := opened s @ [instrPath]\<rparr>"
  obtain r1 s1 where f: "uprobes_funcs w libExe pMap ?s0 = (r1, s1)"
    by (cases "uprobes_funcs w libExe pMap ?s0")
  from uprobes_funcs_frame [OF f]
  have c: "opened s1 = opened s @ [instrPath]" by simp
  show ?thesis
  proof (cases r1)
    case None
    with assms Inr f have
      s': "s' = (if ino \<noteq> 0 then s1\<lparr>tracer := RecordInstrumentedLib ino (tracer s1)\<rparr> else s1)"
      by (simp_all add: uprobes_open_def)
    then have "opened s' = opened s1" by simp
    with c show ?thesis by simp
  next
    case (Some err)
    with assms Inr f have "s' = s1"
      by (simp_all add: uprobes_open_def)
    with c show ?thesis by simp
  qed
qed

subsection \<open>The log of attachment calls\<close>

lemma attach_log:
  "attach w r s = (x, s1) \<Longrightarrow>
     attempts s1 = attempts s @ [r] \<and>
     (case x of Inl e \<Rightarrow> link_attach w (attempts s) r = Some e
              | Inr c \<Rightarrow> link_attach w (attempts s) r = None)"
  by (auto simp: attach_def split: option.splits)

lemma append_closable_attempts: "attempts (append_closable c s) = attempts s"
  by (simp add: append_closable_def)

lemma uprobe_log:
  assumes "uprobe w f libExe progs s = (r, s')"
  shows "\<exists>added. attempts s' = attempts s @ added
    \<and> (\<forall>p. Start progs = Some p \<longrightarrow> ExeUprobe libExe f p None \<in> set added)
    \<and> (\<forall>q. End progs = Some q \<longrightarrow> Start progs = None \<or> r = None
           \<longrightarrow> ExeUretprobe libExe f q \<in> set added)
    \<and> (\<forall>a \<in> set added. (\<exists>p. Start progs = Some p \<and> a = ExeUprobe libExe f p None)
                        \<or> (\<exists>q. End progs = Some q \<and> a = ExeUretprobe libExe f q))
    \<and> (\<forall>err. r = Some err \<longrightarrow>
          (\<exists>hist a e. attempts s' = hist @ [a] \<and> link_attach w hist a = Some e
             \<and> ((\<exists>p. Start progs = Some p \<and> a = ExeUprobe libExe f p None \<and> err = SettingUprobe e)
                \<or> (\<exists>q. End progs = Some q \<and> a = ExeUretprobe libExe f q \<and> err = SettingUretprobe e))))"
proof -
  obtain r1 s1 where st: "uprobe_start w f libExe progs s = (r1, s1)"
    by (cases "uprobe_start w f libExe progs s")
  have start: "(Start progs = None \<and> r1 = None \<and> attempts s1 = attempts s)
     \<or> (\<exists>p. Start progs = Some p \<and> attempts s1 = attempts s @ [ExeUprobe libExe f p None]
          \<and> (case r1 of None \<Rightarrow> link_attach w (attempts s) (ExeUprobe libExe f p None) = None
              | Some err \<Rightarrow> \<exists>e. err = SettingUprobe e
                  \<and> link_attach w (attempts s) (ExeUprobe libExe f p None) = Some e))"
  proof (cases "Start progs")
    case None
    with st show ?thesis by (simp add: uprobe_start_def)
  next
    case (Some p)
    obtain x s2 where a: "attach w (ExeUprobe libExe f p None) s = (x, s2)"
      by (cases "attach w (ExeUprobe libExe f p None) s")
    note l = attach_log [OF a]
    show ?thesis
    proof (cases x)
      case (Inl e)
      with st Some a have "r1 = Some (SettingUprobe e)" "s1 = s2"
        by (simp_all add: uprobe_start_def)
      with l Inl Some show ?thesis by simp
    next
      case (Inr c)
      with st Some a have "r1 = None" "s1 = append_closable c s2"
        by (simp_all add: uprobe_start_def)
      with l Inr Some show ?thesis by (simp add: append_closable_attempts)
    qed
  qed
  show ?thesis
  proof (cases r1)
    case (Some err)
    with assms st have rs: "r = Some err" "s' = s1" by (simp_all add: uprobe_def)
    from start Some obtain p e where
      p: "Start progs = Some p" "attempts s1 = attempts s @ [ExeUprobe libExe f p None]"
         "err = SettingUprobe e" "link_attach w (attempts s) (ExeUprobe libExe f p None) = Some e"
      by auto
    show ?thesis
      by (rule exI [of _ "[ExeUprobe libExe f p None]"]) (use rs p in auto)
  next
    case None
    show ?thesis
    proof (cases "End progs")
      case N: None
      with assms st None have rs: "r = None" "s' = s1" by (simp_all add: uprobe_def)
      from start None consider "Start progs = None" "attempts s1 = attempts s"
        | p where "Start progs = Some p" "attempts s1 = attempts s @ [ExeUprobe libExe f p None]"
        by auto
      then show ?thesis
      proof cases
        case 1
        show ?thesis by (rule exI [of _ "[]"]) (use rs 1 N in auto)
      next
        case 2
        show ?thesis by (rule exI [of _ "[ExeUprobe libExe f p None]"]) (use rs 2 N in auto)
      qed
    next
      case (Some q)
      obtain x s2 where a: "attach w (ExeUretprobe libExe f q) s1 = (x, s2)"
        by (cases "attach w (ExeUretprobe libExe f q) s1")
      note l = attach_log [OF a]
      have fin: "attempts s' = attempts s1 @ [ExeUretprobe libExe f q]
        \<and> (case r of None \<Rightarrow> True
            | Some err \<Rightarrow> \<exists>e. err = SettingUretprobe e
                \<and> link_attach w (attempts s1) (ExeUretprobe libExe f q) = Some e)"
      proof (cases x)
        case (Inl e)
        with assms st None Some a have "r = Some (SettingUretprobe e)" "s' = s2"
          by (simp_all add: uprobe_def)
        with l Inl show ?thesis by simp
      next
        case (Inr c)
        with assms st None Some a have "r = None" "s' = append_closable c s2"
          by (simp_all add: uprobe_def)
        with l Inr show ?thesis by (simp add: append_closable_attempts)
      qed
      from start None consider "Start progs = None" "attempts s1 = attempts s"
        | p where "Start progs = Some p" "attempts s1 = attempts s @ [ExeUprobe libExe f p None]"
        by auto
      then show ?thesis
      proof cases
        case 1
        show ?thesis
          by (rule exI [of _ "[ExeUretprobe libExe f q]"])
            (use fin 1 Some in \<open>auto split: option.splits\<close>)
      next
        case 2
        have "\<forall>err. r = Some err \<longrightarrow>
          (\<exists>hist a e. attempts s' = hist @ [a] \<and> link_attach w hist a = Some e
             \<and> ((\<exists>p. Start progs = Some p \<and> a = ExeUprobe libExe f p None \<and> err = SettingUprobe e)
                \<or> (\<exists>q. End progs = Some q \<and> a = ExeUretprobe libExe f q \<and> err = SettingUretprobe e)))"
          using fin Some by (auto split: option.splits)
        then show ?thesis
          by (intro exI [of _ "[ExeUprobe libExe f p None, ExeUretprobe libExe f q]"] conjI)
            (use fin 2 Some in auto)
      qed
    qed
  qed
qed

lemma uprobe_log_packed:
  assumes "uprobe w f libExe progs s = (r, s')"
  shows "\<exists>added. attempts s' = attempts s @ added
    \<and> within_pairs libExe [(f, progs)] added
    \<and> covers_pair libExe (r = None) f progs added
    \<and> (\<forall>err. r = Some err \<longrightarrow> failed_at w libExe f progs (attempts s') err)"
proof -
  from uprobe_log [OF assms] obtain added where
    a: "attempts s' = attempts s @ added"
    and b: "\<forall>p. Start progs = Some p \<longrightarrow> ExeUprobe libExe f p None \<in> set added"
    and c: "\<forall>q. End progs = Some q \<longrightarrow> Start progs = None \<or> r = None
           \<longrightarrow> ExeUretprobe libExe f q \<in> set added"
    and d: "\<forall>a \<in> set added. (\<exists>p. Start progs = Some p \<and> a = ExeUprobe libExe f p None)
                        \<or> (\<exists>q. End progs = Some q \<and> a = ExeUretprobe libExe f q)"
    and e: "\<forall>err. r = Some err \<longrightarrow>
          (\<exists>hist a e. attempts s' = hist @ [a] \<and> link_attach w hist a = Some e
             \<and> ((\<exists>p. Start progs = Some p \<and> a = ExeUprobe libExe f p None \<and> err = SettingUprobe e)
                \<or> (\<exists>q. End progs = Some q \<and> a = ExeUretprobe libExe f q \<and> err = SettingUretprobe e)))"
    by (elim exE conjE) (rule that)
  have w: "within_pairs libExe [(f, progs)] added"
    unfolding within_pairs_def using d by simp
  have cv: "covers_pair libExe (r = None) f progs added"
    unfolding covers_pair_def using b c by (intro conjI)
  have fl: "\<forall>err. r = Some err \<longrightarrow> failed_at w libExe f progs (attempts s') err"
    unfolding failed_at_def using e .
  from a w cv fl show ?thesis by (intro exI [of _ added] conjI)
qed

lemma add_closables_attempts: "attempts (add_closables s) = attempts s"
  by (simp add: add_closables_def)

lemma within_pairs_Nil: "within_pairs libExe fs []"
  by (simp add: within_pairs_def)

lemma within_pairs_head:
  "within_pairs libExe [(f, progs)] a \<Longrightarrow> within_pairs libExe ((f, progs) # fs) a"
  unfolding within_pairs_def by fastforce

lemma within_pairs_tail:
  "within_pairs libExe fs a \<Longrightarrow> within_pairs libExe (x # fs) a"
  unfolding within_pairs_def by fastforce

lemma within_pairs_append:
  "within_pairs libExe fs a \<Longrightarrow> within_pairs libExe fs b \<Longrightarrow> within_pairs libExe fs (a @ b)"
  unfolding within_pairs_def by auto

lemma covers_pair_appendL:
  "covers_pair libExe ok f progs a \<Longrightarrow> covers_pair libExe ok f progs (a @ b)"
  unfolding covers_pair_def by auto

lemma covers_pair_appendR:
  "covers_pair libExe ok f progs b \<Longrightarrow> covers_pair libExe ok f progs (a @ b)"
  unfolding covers_pair_def by auto

lemma covers_pair_weaken:
  "covers_pair libExe ok f progs a \<Longrightarrow> (ok' \<Longrightarrow> ok) \<Longrightarrow> covers_pair libExe ok' f progs a"
  unfolding covers_pair_def by auto

lemma uprobes_funcs_log:
  "uprobes_funcs w libExe fs s = (r, s') \<Longrightarrow>
   \<exists>added. attempts s' = attempts s @ added
     \<and> within_pairs libExe fs added
     \<and> (r = None \<longrightarrow>
          (\<forall>f progs. (f, progs) \<in> set fs \<longrightarrow> covers_pair libExe (Required progs) f progs added))
     \<and> (\<forall>err. r = Some err \<longrightarrow>
          (\<exists>f progs e. (f, progs) \<in> set fs \<and> Required progs
             \<and> err = InstrumentingFunction f e
             \<and> failed_at w libExe f progs (attempts s') e))"
proof (induction fs arbitrary: s)
  case Nil
  then show ?case by (simp add: within_pairs_Nil)
next
  case (Cons x fs)
  obtain f progs where x: "x = (f, progs)" by (cases x)
  obtain r1 s1 where g: "uprobe w f libExe progs s = (r1, s1)"
    by (cases "uprobe w f libExe progs s")
  from uprobe_log_packed [OF g] obtain a1 where
    a1: "attempts s1 = attempts s @ a1"
    and w1: "within_pairs libExe [(f, progs)] a1"
    and c1: "covers_pair libExe (r1 = None) f progs a1"
    and f1: "\<forall>err. r1 = Some err \<longrightarrow> failed_at w libExe f progs (attempts s1) err"
    by (elim exE conjE) (rule that)
  from w1 x have w1': "within_pairs libExe (x # fs) a1"
    by (simp add: within_pairs_head)
  show ?case
  proof (cases "r1 \<noteq> None \<and> Required progs")
    case True
    then obtain err1 where e1: "r1 = Some err1" and req: "Required progs" by auto
    with Cons.prems x g have rs: "r = Some (InstrumentingFunction f err1)" "s' = s1" by simp_all
    from f1 e1 have fl: "failed_at w libExe f progs (attempts s1) err1" by simp
    have m: "(f, progs) \<in> set (x # fs)" using x by simp
    have p1: "attempts s' = attempts s @ a1" using a1 rs(2) by simp
    have p3: "r = None \<longrightarrow>
          (\<forall>f progs. (f, progs) \<in> set (x # fs) \<longrightarrow> covers_pair libExe (Required progs) f progs a1)"
      using rs(1) by simp
    have p4: "\<forall>err. r = Some err \<longrightarrow>
          (\<exists>f progs e. (f, progs) \<in> set (x # fs) \<and> Required progs
             \<and> err = InstrumentingFunction f e
             \<and> failed_at w libExe f progs (attempts s') e)"
    proof (intro allI impI)
      fix err assume "r = Some err"
      with rs(1) have "err = InstrumentingFunction f err1" by simp
      with m req fl rs(2)
      show "\<exists>f progs e. (f, progs) \<in> set (x # fs) \<and> Required progs
             \<and> err = InstrumentingFunction f e
             \<and> failed_at w libExe f progs (attempts s') e"
        by (intro exI [of _ f] exI [of _ progs] exI [of _ err1]) simp
    qed
    from p1 w1' p3 p4 show ?thesis by (intro exI [of _ a1] conjI)
  next
    case False
    with Cons.prems x g have run: "uprobes_funcs w libExe fs (add_closables s1) = (r, s')"
      by (cases r1) (auto split: if_splits)
    from Cons.IH [OF run] obtain a2 where
      a2: "attempts s' = attempts (add_closables s1) @ a2"
      and w2: "within_pairs libExe fs a2"
      and c2: "r = None \<longrightarrow>
          (\<forall>f progs. (f, progs) \<in> set fs \<longrightarrow> covers_pair libExe (Required progs) f progs a2)"
      and f2: "\<forall>err. r = Some err \<longrightarrow>
          (\<exists>f progs e. (f, progs) \<in> set fs \<and> Required progs
             \<and> err = InstrumentingFunction f e
             \<and> failed_at w libExe f progs (attempts s') e)"
      by (elim exE conjE) (rule that)
    have p1: "attempts s' = attempts s @ (a1 @ a2)"
      using a1 a2 by (simp add: add_closables_attempts)
    have p2: "within_pairs libExe (x # fs) (a1 @ a2)"
      using w1' within_pairs_tail [OF w2, of x] by (rule within_pairs_append)
    have ch: "covers_pair libExe (Required progs) f progs (a1 @ a2)"
    proof (rule covers_pair_appendL, rule covers_pair_weaken [OF c1])
      assume "Required progs"
      with False show "r1 = None" by simp
    qed
    have p3: "r = None \<longrightarrow>
          (\<forall>f' progs'. (f', progs') \<in> set (x # fs)
             \<longrightarrow> covers_pair libExe (Required progs') f' progs' (a1 @ a2))"
    proof (intro impI allI)
      fix f' progs'
      assume rn: "r = None" and m: "(f', progs') \<in> set (x # fs)"
      from m x consider "f' = f" "progs' = progs" | "(f', progs') \<in> set fs" by auto
      then show "covers_pair libExe (Required progs') f' progs' (a1 @ a2)"
      proof cases
        case 1
        with ch show ?thesis by simp
      next
        case 2
        with c2 rn have "covers_pair libExe (Required progs') f' progs' a2" by simp
        then show ?thesis by (rule covers_pair_appendR)
      qed
    qed
    have p4: "\<forall>err. r = Some err \<longrightarrow>
          (\<exists>f progs e. (f, progs) \<in> set (x # fs) \<and> Required progs
             \<and> err = InstrumentingFunction f e
             \<and> failed_at w libExe f progs (attempts s') e)"
    proof (intro allI impI)
      fix err assume "r = Some err"
      with f2 obtain f' progs' e where
        y: "(f', progs') \<in> set fs" "Required progs'" "err = InstrumentingFunction f' e"
           "failed_at w libExe f' progs' (attempts s') e"
        by (elim allE impE exE conjE) (assumption, rule that)
      from y(1) have "(f', progs') \<in> set (x # fs)" by simp
      with y(2-4)
      show "\<exists>f progs e. (f, progs) \<in> set (x # fs) \<and> Required progs
             \<and> err = InstrumentingFunction f e
             \<and> failed_at w libExe f progs (attempts s') e"
        by (intro exI [of _ f'] exI [of _ progs'] exI [of _ e]) simp
    qed
    from p1 p2 p3 p4 show ?thesis by (intro exI [of _ "a1 @ a2"] conjI)
  qed
qed

lemma uprobes_open_log:
  assumes "uprobes_open w instrPath ino pMap s = (r, s')"
  shows "(\<forall>e. OpenExecutable w instrPath = Inl e \<longrightarrow> r = Some e \<and> attempts s' = attempts s)
    \<and> (\<forall>libExe. OpenExecutable w instrPath = Inr libExe \<longrightarrow>
          (\<exists>added. attempts s' = attempts s @ added
             \<and> within_pairs libExe pMap added
             \<and> (r = None \<longrightarrow>
                  (\<forall>f progs. (f, progs) \<in> set pMap
                     \<longrightarrow> covers_pair libExe (Required progs) f progs added))
             \<and> (\<forall>err. r = Some err \<longrightarrow>
                  (\<exists>f progs e. (f, progs) \<in> set pMap \<and> Required progs
                     \<and> err = InstrumentingFunction f e
                     \<and> failed_at w libExe f progs (attempts s') e))))"
proof (intro conjI allI impI)
  fix e assume o: "OpenExecutable w instrPath = Inl e"
  with assms have "r = Some e" "s' = s\<lparr>opened := opened s @ [instrPath]\<rparr>"
    by (simp_all add: uprobes_open_def)
  then show "r = Some e" "attempts s' = attempts s" by simp_all
next
  fix libExe assume o: "OpenExecutable w instrPath = Inr libExe"
  let ?s0 = "s\<lparr>opened := opened s @ [instrPath]\<rparr>"
  obtain r1 s1 where f: "uprobes_funcs w libExe pMap ?s0 = (r1, s1)"
    by (cases "uprobes_funcs w libExe pMap ?s0")
  have rs: "r = r1 \<and> attempts s' = attempts s1"
  proof (cases r1)
    case None
    with assms o f have "r = None"
      "s' = (if ino \<noteq> 0 then s1\<lparr>tracer := RecordInstrumentedLib ino (tracer s1)\<rparr> else s1)"
      by (simp_all add: uprobes_open_def)
    with None show ?thesis by simp
  next
    case (Some err)
    with assms o f have "r = Some err" "s' = s1"
      by (simp_all add: uprobes_open_def)
    with Some show ?thesis by simp
  qed
  have a0: "attempts ?s0 = attempts s" by simp
  from uprobes_funcs_log [OF f] rs a0
  show "\<exists>added. attempts s' = attempts s @ added
             \<and> within_pairs libExe pMap added
             \<and> (r = None \<longrightarrow>
                  (\<forall>f progs. (f, progs) \<in> set pMap
                     \<longrightarrow> covers_pair libExe (Required progs) f progs added))
             \<and> (\<forall>err. r = Some err \<longrightarrow>
                  (\<exists>f progs e. (f, progs) \<in> set pMap \<and> Required progs
                     \<and> err = InstrumentingFunction f e
                     \<and> failed_at w libExe f progs (attempts s') e))"
    by simp
qed

lemma uprobes_open_grows_logs:
  assumes "uprobes_open w instrPath ino pMap s = (r, s')"
  shows "(\<exists>a. attempts s' = attempts s @ a) \<and> (\<exists>b. opened s' = opened s @ b)"
proof -
  have "\<exists>a. attempts s' = attempts s @ a"
  proof (cases "OpenExecutable w instrPath")
    case (Inl e)
    with uprobes_open_log [OF assms] show ?thesis by simp
  next
    case (Inr libExe)
    with uprobes_open_log [OF assms] show ?thesis by blast
  qed
  moreover from uprobes_open_opened [OF assms] have "\<exists>b. opened s' = opened s @ b" by blast
  ultimately show ?thesis by simp
qed

lemma uprobes_lib_grows_logs:
  assumes "uprobes_lib w pid maps lib pMap s = (r, s')"
  shows "(\<exists>a. attempts s' = attempts s @ a) \<and> (\<exists>b. opened s' = opened s @ b)"
proof (cases "lib_target w pid maps lib (tracer s)")
  case None
  with assms show ?thesis by (simp add: uprobes_lib_def)
next
  case (Some t)
  obtain instrPath ino where t: "t = (instrPath, ino)" by (cases t)
  with assms Some have "uprobes_open w instrPath ino pMap s = (r, s')"
    by (simp add: uprobes_lib_def)
  then show ?thesis by (rule uprobes_open_grows_logs)
qed

lemma uprobes_loop_grows_logs:
  "uprobes_loop w pid maps cat s = (r, s') \<Longrightarrow>
     (\<exists>a. attempts s' = attempts s @ a) \<and> (\<exists>b. opened s' = opened s @ b)"
proof (induction cat arbitrary: s)
  case Nil
  then show ?case by simp
next
  case (Cons x cat)
  obtain lib pMap where x: "x = (lib, pMap)" by (cases x)
  obtain r1 s1 where l: "uprobes_lib w pid maps lib pMap s = (r1, s1)"
    by (cases "uprobes_lib w pid maps lib pMap s")
  from uprobes_lib_grows_logs [OF l] obtain a1 b1 where
    g1: "attempts s1 = attempts s @ a1" "opened s1 = opened s @ b1" by blast
  show ?case
  proof (cases r1)
    case None
    with Cons.prems x l have "uprobes_loop w pid maps cat s1 = (r, s')" by simp
    from Cons.IH [OF this] obtain a2 b2 where
      "attempts s' = attempts s1 @ a2" "opened s' = opened s1 @ b2" by blast
    with g1 have "attempts s' = attempts s @ (a1 @ a2)" "opened s' = opened s @ (b1 @ b2)"
      by simp_all
    then show ?thesis by blast
  next
    case (Some err)
    with Cons.prems x l have "s' = s1" by simp
    with g1 show ?thesis by blast
  qed
qed

lemma uprobes_loop_append:
  "uprobes_loop w pid maps pre s = (None, s1) \<Longrightarrow>
     uprobes_loop w pid maps (pre @ rest) s = uprobes_loop w pid maps rest s1"
proof (induction pre arbitrary: s)
  case Nil
  then show ?case by simp
next
  case (Cons x pre)
  obtain lib pMap where x: "x = (lib, pMap)" by (cases x)
  obtain r1 s2 where l: "uprobes_lib w pid maps lib pMap s = (r1, s2)"
    by (cases "uprobes_lib w pid maps lib pMap s")
  with Cons.prems x have r1: "r1 = None" by (cases r1) simp_all
  with Cons.prems x l have "uprobes_loop w pid maps pre s2 = (None, s1)" by simp
  from Cons.IH [OF this, of ] x l r1 show ?case by simp
qed

lemma fallback_step:
  assumes "LibPath w lib maps = None"
  shows "uprobes_lib w pid maps lib pMap s = uprobes_open w (proc_exe_path pid) 0 pMap s"
  using assms by (simp add: uprobes_lib_def lib_target_def)

lemma fallback_in_uprobes:
  assumes n: "LibPath w lib maps = None"
    and pm: "processMaps w pid = Inr maps" and ne: "maps \<noteq> []"
    and cat: "UProbes (tracer t) = pre @ (lib, pMap) # post"
    and pre: "uprobes_loop w pid maps pre t = (None, t1)"
  shows "uprobes w pid t =
           (case uprobes_lib w pid maps lib pMap t1 of
              (Some err, t2) \<Rightarrow> (Some err, t2)
            | (None, t2) \<Rightarrow> uprobes_loop w pid maps post t2)
     \<and> (\<forall>r t'. uprobes w pid t = (r, t') \<longrightarrow>
          (\<exists>b. opened t' = opened t1 @ proc_exe_path pid # b)
          \<and> (\<forall>libExe. OpenExecutable w (proc_exe_path pid) = Inr libExe \<longrightarrow> r = None \<longrightarrow>
                (\<exists>added after. attempts t' = attempts t1 @ added @ after
                   \<and> within_pairs libExe pMap added
                   \<and> (\<forall>f progs. (f, progs) \<in> set pMap
                         \<longrightarrow> covers_pair libExe (Required progs) f progs added))))"
proof -
  from pm ne cat have "uprobes w pid t = uprobes_loop w pid maps (pre @ (lib, pMap) # post) t"
    by (simp add: uprobes_def)
  also from pre have "\<dots> = uprobes_loop w pid maps ((lib, pMap) # post) t1"
    by (rule uprobes_loop_append)
  also have "\<dots> = (case uprobes_lib w pid maps lib pMap t1 of
              (Some err, t2) \<Rightarrow> (Some err, t2)
            | (None, t2) \<Rightarrow> uprobes_loop w pid maps post t2)"
    by (simp split: prod.splits option.splits)
  finally have eq: "uprobes w pid t =
           (case uprobes_lib w pid maps lib pMap t1 of
              (Some err, t2) \<Rightarrow> (Some err, t2)
            | (None, t2) \<Rightarrow> uprobes_loop w pid maps post t2)" .
  have log: "(\<exists>b. opened t' = opened t1 @ proc_exe_path pid # b)
          \<and> (\<forall>libExe. OpenExecutable w (proc_exe_path pid) = Inr libExe \<longrightarrow> r = None \<longrightarrow>
                (\<exists>added after. attempts t' = attempts t1 @ added @ after
                   \<and> within_pairs libExe pMap added
                   \<and> (\<forall>f progs. (f, progs) \<in> set pMap
                         \<longrightarrow> covers_pair libExe (Required progs) f progs added)))"
    if run: "uprobes w pid t = (r, t')" for r t'
  proof -
    obtain r1 t2 where l: "uprobes_lib w pid maps lib pMap t1 = (r1, t2)"
      by (cases "uprobes_lib w pid maps lib pMap t1")
    then have o: "uprobes_open w (proc_exe_path pid) 0 pMap t1 = (r1, t2)"
      using fallback_step [OF n] by simp
    note op = uprobes_open_opened [OF o]
    note lg = uprobes_open_log [OF o]
    show ?thesis
    proof (cases r1)
      case (Some err)
      with eq l run have rs: "r = Some err" "t' = t2" by simp_all
      from op rs have "opened t' = opened t1 @ proc_exe_path pid # []" by simp
      then have "\<exists>b. opened t' = opened t1 @ proc_exe_path pid # b" ..
      with rs(1) show ?thesis by simp
    next
      case None
      with eq l run have rest: "uprobes_loop w pid maps post t2 = (r, t')" by simp
      from uprobes_loop_grows_logs [OF rest] obtain a2 b2 where
        g: "attempts t' = attempts t2 @ a2" "opened t' = opened t2 @ b2" by blast
      from op g(2) have "opened t' = opened t1 @ proc_exe_path pid # b2" by simp
      then have c1: "\<exists>b. opened t' = opened t1 @ proc_exe_path pid # b" ..
      have c2: "\<exists>added after. attempts t' = attempts t1 @ added @ after
                   \<and> within_pairs libExe pMap added
                   \<and> (\<forall>f progs. (f, progs) \<in> set pMap
                         \<longrightarrow> covers_pair libExe (Required progs) f progs added)"
        if e: "OpenExecutable w (proc_exe_path pid) = Inr libExe" for libExe
      proof -
        from lg e None obtain added where
          a: "attempts t2 = attempts t1 @ added" "within_pairs libExe pMap added"
             "\<forall>f progs. (f, progs) \<in> set pMap
                 \<longrightarrow> covers_pair libExe (Required progs) f progs added"
          by auto
        from a(1) g(1) have "attempts t' = attempts t1 @ added @ a2" by simp
        with a(2,3) show ?thesis by blast
      qed
      from c1 c2 show ?thesis by blast
    qed
  qed
  from eq log show ?thesis by blast
qed

subsection \<open>Byte order\<close>

lemma htons_little: "htons LittleEndianHost a = (drop_bit 8 a) OR (push_bit 8 a)"
  unfolding htons_def BigEndian_Uint16_def LittleEndian_PutUint16_def
  apply (simp add: isLittleEndian_little)
  apply (rule bit_word_eqI)
  apply (auto simp add: bit_simps not_less dest: bit_imp_le_length)
  done

lemma htons_big: "htons BigEndianHost a = a"
  by (simp add: htons_def isLittleEndian_big)

lemma swap_bytes_twice:
  "(drop_bit 8 ((drop_bit 8 a) OR (push_bit 8 a))) OR (push_bit 8 ((drop_bit 8 a) OR (push_bit 8 a))) = (a::uint16)"
proof (rule bit_word_eqI)
  fix n :: nat
  assume "n < LENGTH(16)"
  show "bit ((drop_bit 8 ((drop_bit 8 a) OR (push_bit 8 a))) OR (push_bit 8 ((drop_bit 8 a) OR (push_bit 8 a)))) n = bit a n"
  proof (cases "n < 8")
    case True
    then show ?thesis
      by (auto simp add: bit_simps dest: bit_imp_le_length)
  next
    case False
    then have "8 + (n - 8) = n" by simp
    with False show ?thesis
      by (auto simp add: bit_simps dest: bit_imp_le_length)
  qed
qed

section \<open>The claims\<close>

lemmas ex_defs = never_fails_def always_fails_def fails_at_def ex_map_def ex_os_def
  ex_os_unreadable_def ex_os_no_maps_def entry_only_def entry_and_return_def optional_def
  no_programs_def ex_f_offsets_def ex_instrumenter_def ex_tracer_def ex_state_def
  ex_state_f_def ex_state_two_libs_def

lemmas run_defs = attach_def append_closable_def add_closables_def AddCloser_def
  goprobe_def goprobe_start_def goprobes_def kprobe_def kprobe_start_def kprobes_def
  uprobe_def uprobe_start_def uprobes_def uprobes_lib_def uprobes_open_def lib_target_def
  processMaps_def AlreadyInstrumentedLib_def RecordInstrumentedLib_def
  map_files_path_def proc_exe_path_def fmt_d_def fmt_x_def fmt_base.simps digit_char_def

subsection \<open>C1: one release handle per attached point\<close>

text \<open>
  C1. For a function name present in the offset resolver whose offset set has N return
  offsets, a call of \<open>goprobe\<close> that returns no error appends to the instrumenter's
  closables exactly one handle if only the entry program is set, exactly N if only the
  return program is set, and exactly 1 + N if both are set. The handles are, in order,
  the link of the entry program at the entry offset and one link of the return program
  at each return offset, each made by \<open>Uprobe\<close> at an explicit address (never by
  \<open>Uretprobe\<close>), and these are all the attachment calls the function made.
\<close>

theorem goprobe_release_handles:
  assumes "Funcs (offsets (inst s)) funcName = Some offs"
    and "goprobe w \<lparr>Offsets = offs, Programs = funcPrograms\<rparr> s = (None, s')"
  shows "\<exists>new. closables (inst s') = closables (inst s) @ new
     \<and> length new = (if Start funcPrograms = None then 0 else 1)
                    + (if End funcPrograms = None then 0 else length (Returns offs))
     \<and> map link_req new =
           (case Start funcPrograms of None \<Rightarrow> []
            | Some p \<Rightarrow> [ExeUprobe (exe (inst s)) [] p (Some (StartOffset offs))])
           @ (case End funcPrograms of None \<Rightarrow> []
              | Some p \<Rightarrow> map (\<lambda>ret. ExeUprobe (exe (inst s)) [] p (Some ret)) (Returns offs))
     \<and> attempts s' = attempts s @ map link_req new"
proof -
  let ?probe = "\<lparr>Offsets = offs, Programs = funcPrograms\<rparr>"
  from goprobe_ok [OF assms(2)] obtain new where
    new: "grows s s' new" "attempts s' = attempts s @ map link_req new" and
    reqs: "map link_req new =
           (case Start (Programs ?probe) of None \<Rightarrow> []
            | Some p \<Rightarrow> [ExeUprobe (exe (inst s)) [] p (Some (StartOffset (Offsets ?probe)))])
           @ (case End (Programs ?probe) of None \<Rightarrow> []
              | Some p \<Rightarrow> map (\<lambda>ret. ExeUprobe (exe (inst s)) [] p (Some ret)) (Returns (Offsets ?probe)))"
    by blast
  from reqs have new3: "map link_req new =
           (case Start funcPrograms of None \<Rightarrow> []
            | Some p \<Rightarrow> [ExeUprobe (exe (inst s)) [] p (Some (StartOffset offs))])
           @ (case End funcPrograms of None \<Rightarrow> []
              | Some p \<Rightarrow> map (\<lambda>ret. ExeUprobe (exe (inst s)) [] p (Some ret)) (Returns offs))"
    by (cases "Start funcPrograms"; cases "End funcPrograms") simp_all
  from new3 have "length (map link_req new) = (if Start funcPrograms = None then 0 else 1)
                    + (if End funcPrograms = None then 0 else length (Returns offs))"
    by (simp split: option.splits)
  then have "length new = (if Start funcPrograms = None then 0 else 1)
                    + (if End funcPrograms = None then 0 else length (Returns offs))"
    by simp
  moreover from new(1) have "closables (inst s') = closables (inst s) @ new"
    by (simp add: grows_def)
  ultimately show ?thesis using new(2) new3 by blast
qed

text \<open>
  The function \<open>main.f\<close> of the example has two return offsets and both programs: three
  handles.
\<close>

theorem goprobe_release_handles_witness:
  "Funcs (offsets (inst ex_state)) ''main.f'' = Some ex_f_offsets
   \<and> fst (goprobe (ex_os never_fails)
            \<lparr>Offsets = ex_f_offsets, Programs = entry_and_return 1 2\<rparr> ex_state) = None
   \<and> (\<exists>new. closables (inst (snd (goprobe (ex_os never_fails)
                 \<lparr>Offsets = ex_f_offsets, Programs = entry_and_return 1 2\<rparr> ex_state)))
               = closables (inst ex_state) @ new
             \<and> length new = 1 + 2)"
proof -
  let ?run = "goprobe (ex_os never_fails)
                \<lparr>Offsets = ex_f_offsets, Programs = entry_and_return 1 2\<rparr> ex_state"
  have h1: "Funcs (offsets (inst ex_state)) ''main.f'' = Some ex_f_offsets"
    by (simp add: ex_defs)
  have h2: "?run = (None, snd ?run)"
    by (simp add: ex_defs run_defs)
  have n: "(if Start (entry_and_return 1 2) = None then 0 else 1)
             + (if End (entry_and_return 1 2) = None then 0 else length (Returns ex_f_offsets))
           = (1 + 2 :: nat)"
    by (simp add: ex_defs)
  from goprobe_release_handles [OF h1 h2] obtain new where
    "closables (inst (snd ?run)) = closables (inst ex_state) @ new" "length new = 1 + 2"
    unfolding n by blast
  then have "\<exists>new. closables (inst (snd ?run)) = closables (inst ex_state) @ new
             \<and> length new = 1 + 2"
    by blast
  moreover from h2 have "fst ?run = None" by (metis fst_conv)
  ultimately show ?thesis using h1 by blast
qed

subsection \<open>C2: handles in the sink when a later function fails\<close>

text \<open>
  C2, as stated, fails for the earlier points of the function that fails. In the
  example the catalog holds the one function \<open>main.f\<close> and the second attachment call
  fails: the entry probe of \<open>main.f\<close> is attached, its first return probe is not.
  \<open>goprobes\<close> returns the error; the handle of the entry probe is in the
  instrumenter's closables and the closer sink is empty.
\<close>

theorem failing_function_handle_not_in_sink:
  "fst (goprobes (ex_os (fails_at 1)) ex_state_f)
     = Some (InstrumentingFunction ''main.f'' (SettingUretprobe (OSError 1)))
   \<and> attempts (snd (goprobes (ex_os (fails_at 1)) ex_state_f))
     = [ExeUprobe (Executable ''/proc/42/exe'') [] 1 (Some 0x10),
        ExeUprobe (Executable ''/proc/42/exe'') [] 2 (Some 0x20)]
   \<and> closables (inst (snd (goprobes (ex_os (fails_at 1)) ex_state_f)))
     = [Link 0 (ExeUprobe (Executable ''/proc/42/exe'') [] 1 (Some 0x10))]
   \<and> closers (tracer (snd (goprobes (ex_os (fails_at 1)) ex_state_f))) = []"
  by (simp add: ex_defs run_defs)

text \<open>
  C2, amended. When \<open>goprobes\<close> returns an error, every release handle created for the
  functions the loop had completed before the failing one is in the closer sink:
  whenever the catalog, in the order visited, is \<open>pre @ rest\<close> and the loop over \<open>pre\<close>
  ends without error in \<open>s1\<close>, the handles appended to the closables up to \<open>s1\<close> are
  all in the sink of the state in which the error is returned.
\<close>

theorem earlier_functions_handles_in_sink:
  assumes "GoProbes (tracer s) = pre @ rest"
    and "goprobes_loop w pre s = (None, s1)"
    and "goprobes w s = (Some err, s')"
  shows "\<exists>new. closables (inst s1) = closables (inst s) @ new
           \<and> set new \<subseteq> set (closers (tracer s'))"
proof -
  from goprobes_loop_ok_handed [OF assms(2)] obtain new where
    new: "closables (inst s1) = closables (inst s) @ new" "set new \<subseteq> set (closers (tracer s1))"
    by blast
  from assms have "goprobes_loop w rest s1 = (Some err, s')"
    by (simp add: goprobes_def goprobes_loop_append)
  from goprobes_loop_sink_prefix [OF this] obtain d where
    "closers (tracer s') = closers (tracer s1) @ d" by blast
  with new show ?thesis by auto
qed

text \<open>
  In the example the fourth attachment call fails: \<open>main.f\<close> is attached at its three
  points, then the entry probe of \<open>main.g\<close> fails.
\<close>

theorem earlier_functions_handles_in_sink_witness:
  "GoProbes (tracer ex_state) = [(''main.f'', entry_and_return 1 2)] @ [(''main.g'', entry_only 3)]
   \<and> fst (goprobes_loop (ex_os (fails_at 3)) [(''main.f'', entry_and_return 1 2)] ex_state) = None
   \<and> fst (goprobes (ex_os (fails_at 3)) ex_state)
       = Some (InstrumentingFunction ''main.g'' (SettingUprobe (OSError 1)))
   \<and> (\<exists>new. closables (inst (snd (goprobes_loop (ex_os (fails_at 3))
                                     [(''main.f'', entry_and_return 1 2)] ex_state)))
               = closables (inst ex_state) @ new
             \<and> set new \<subseteq> set (closers (tracer (snd (goprobes (ex_os (fails_at 3)) ex_state)))))"
proof -
  let ?pre = "goprobes_loop (ex_os (fails_at 3)) [(''main.f'', entry_and_return 1 2)] ex_state"
  let ?all = "goprobes (ex_os (fails_at 3)) ex_state"
  let ?err = "InstrumentingFunction ''main.g'' (SettingUprobe (OSError 1))"
  have h1: "GoProbes (tracer ex_state)
              = [(''main.f'', entry_and_return 1 2)] @ [(''main.g'', entry_only 3)]"
    by (simp add: ex_defs)
  have f2: "fst ?pre = None"
    by (simp add: ex_defs run_defs)
  have f3: "fst ?all = Some ?err"
    by (simp add: ex_defs run_defs)
  from f2 have h2: "?pre = (None, snd ?pre)" by (metis prod.collapse)
  from f3 have h3: "?all = (Some ?err, snd ?all)" by (metis prod.collapse)
  from earlier_functions_handles_in_sink [OF h1 h2 h3] h1 f2 f3 show ?thesis by blast
qed

subsection \<open>C3: the memory map of the process\<close>

text \<open>
  C3, as stated, fails when the memory map cannot be read: \<open>processMaps\<close> then returns
  an error, and \<open>uprobes\<close> returns that error to its caller.
\<close>

theorem unreadable_map_error_returned:
  "processMaps ex_os_unreadable 42 = Inl (OSError 2)
   \<and> uprobes ex_os_unreadable 42 ex_state = (Some (OSError 2), ex_state)"
  by (simp add: ex_defs run_defs)

text \<open>
  C3, amended. When the memory map is read as an empty sequence, \<open>uprobes\<close> returns no
  error and changes nothing: no image is opened, no attachment is made, nothing reaches
  the sink or the registry. When reading the memory map returns an error, \<open>uprobes\<close>
  returns that same error, and likewise changes nothing.
\<close>

theorem process_map_read:
  "(processMaps w pid = Inr [] \<longrightarrow> uprobes w pid s = (None, s))
   \<and> (processMaps w pid = Inl err \<longrightarrow> uprobes w pid s = (Some err, s))"
  by (simp add: uprobes_def)

theorem process_map_read_witness:
  "processMaps ex_os_no_maps 42 = Inr []
   \<and> uprobes ex_os_no_maps 42 ex_state = (None, ex_state)
   \<and> processMaps ex_os_unreadable 42 = Inl (OSError 2)
   \<and> uprobes ex_os_unreadable 42 ex_state = (Some (OSError 2), ex_state)"
proof -
  have h1: "processMaps ex_os_no_maps 42 = Inr []"
    by (simp add: ex_defs processMaps_def)
  have h2: "processMaps ex_os_unreadable 42 = Inl (OSError 2)"
    by (simp add: ex_defs processMaps_def)
  from process_map_read [of ex_os_no_maps 42 ex_state "OSError 2"]
    process_map_read [of ex_os_unreadable 42 ex_state "OSError 2"] h1 h2
  show ?thesis by blast
qed

subsection \<open>C4: required and optional pairs\<close>

lemma uprobes_single_library:
  assumes "processMaps w pid = Inr maps" and "maps \<noteq> []"
    and "UProbes (tracer s) = [(lib, pMap)]"
    and "lib_target w pid maps lib (tracer s) = Some (instrPath, ino)"
    and "OpenExecutable w instrPath = Inr libExe"
  shows "(\<exists>err s'. uprobes w pid s = (Some err, s')) \<longleftrightarrow>
         (\<exists>err s'. uprobes_funcs w libExe pMap (s\<lparr>opened := opened s @ [instrPath]\<rparr>) = (Some err, s'))"
proof -
  let ?s0 = "s\<lparr>opened := opened s @ [instrPath]\<rparr>"
  obtain r1 s1 where f: "uprobes_funcs w libExe pMap ?s0 = (r1, s1)"
    by (cases "uprobes_funcs w libExe pMap ?s0")
  from assms have u: "uprobes w pid s = uprobes_loop w pid maps [(lib, pMap)] s"
    by (simp add: uprobes_def)
  from assms have l: "uprobes_lib w pid maps lib pMap s = uprobes_open w instrPath ino pMap s"
    by (simp add: uprobes_lib_def)
  show ?thesis
  proof (cases r1)
    case None
    with assms(5) f have "fst (uprobes_open w instrPath ino pMap s) = None"
      by (simp add: uprobes_open_def)
    with l have "fst (uprobes_loop w pid maps [(lib, pMap)] s) = None"
      by (cases "uprobes_open w instrPath ino pMap s") simp
    with u f None show ?thesis by (metis fst_conv option.distinct(1))
  next
    case (Some err)
    with assms(5) f have "uprobes_open w instrPath ino pMap s = (Some err, s1)"
      by (simp add: uprobes_open_def)
    with l have "uprobes_loop w pid maps [(lib, pMap)] s = (Some err, s1)"
      by simp
    with u f Some show ?thesis by auto
  qed
qed

text \<open>
  C4. The loop over the functions of one library returns an error if and only if it
  reaches a pair marked required whose attachment fails: the catalog splits as
  \<open>pre @ (funcName, funcPrograms) # post\<close>, the loop over \<open>pre\<close> ends without error,
  the pair is required and \<open>uprobe\<close> fails on it. The failure of a pair that is not
  required is swallowed: the loop goes on with the remaining pairs, after handing the
  closables to the sink. Whatever the outcome, the sink only grows: what was appended
  before a later required failure stays. For a catalog of one library whose image is
  opened, the call of \<open>uprobes\<close> itself returns an error exactly when that loop does.
\<close>

theorem required_vs_optional:
  "((\<exists>err s'. uprobes_funcs w libExe pMap s = (Some err, s')) \<longleftrightarrow>
      (\<exists>pre funcName funcPrograms post s1 err s2.
         pMap = pre @ (funcName, funcPrograms) # post
         \<and> uprobes_funcs w libExe pre s = (None, s1)
         \<and> Required funcPrograms
         \<and> uprobe w funcName libExe funcPrograms s1 = (Some err, s2)))
   \<and> (\<not> Required progs \<longrightarrow> uprobe w f libExe progs s = (Some e, s1)
        \<longrightarrow> uprobes_funcs w libExe ((f, progs) # rest) s
              = uprobes_funcs w libExe rest (add_closables s1))
   \<and> (\<forall>r s'. uprobes_funcs w libExe pMap s = (r, s')
        \<longrightarrow> (\<exists>d. closers (tracer s') = closers (tracer s) @ d))
   \<and> (processMaps w pid = Inr maps \<longrightarrow> maps \<noteq> [] \<longrightarrow> UProbes (tracer t) = [(lib, pMap)]
        \<longrightarrow> lib_target w pid maps lib (tracer t) = Some (instrPath, ino)
        \<longrightarrow> OpenExecutable w instrPath = Inr libExe
        \<longrightarrow> ((\<exists>err t'. uprobes w pid t = (Some err, t')) \<longleftrightarrow>
             (\<exists>err t'. uprobes_funcs w libExe pMap (t\<lparr>opened := opened t @ [instrPath]\<rparr>)
                         = (Some err, t'))))"
proof (intro conjI impI allI)
  show "(\<exists>err s'. uprobes_funcs w libExe pMap s = (Some err, s')) \<longleftrightarrow>
      (\<exists>pre funcName funcPrograms post s1 err s2.
         pMap = pre @ (funcName, funcPrograms) # post
         \<and> uprobes_funcs w libExe pre s = (None, s1)
         \<and> Required funcPrograms
         \<and> uprobe w funcName libExe funcPrograms s1 = (Some err, s2))"
    by (rule uprobes_funcs_error_iff)
next
  assume "\<not> Required progs" and "uprobe w f libExe progs s = (Some e, s1)"
  then show "uprobes_funcs w libExe ((f, progs) # rest) s
              = uprobes_funcs w libExe rest (add_closables s1)"
    by simp
next
  fix r s'
  assume "uprobes_funcs w libExe pMap s = (r, s')"
  from uprobes_funcs_frame [OF this]
  show "\<exists>d. closers (tracer s') = closers (tracer s) @ d" by simp
next
  assume "processMaps w pid = Inr maps" "maps \<noteq> []" "UProbes (tracer t) = [(lib, pMap)]"
    "lib_target w pid maps lib (tracer t) = Some (instrPath, ino)"
    "OpenExecutable w instrPath = Inr libExe"
  then show "(\<exists>err t'. uprobes w pid t = (Some err, t')) \<longleftrightarrow>
             (\<exists>err t'. uprobes_funcs w libExe pMap (t\<lparr>opened := opened t @ [instrPath]\<rparr>)
                         = (Some err, t'))"
    by (rule uprobes_single_library)
qed

text \<open>
  In the example every attachment fails. \<open>SSL_read\<close> is optional and visited first: its
  failure is swallowed. \<open>SSL_write\<close> is required: its failure is the error of the call.
\<close>

theorem required_vs_optional_witness:
  "\<not> Required (optional (entry_only 6))
   \<and> uprobe (ex_os always_fails) ''SSL_read'' (Executable ''/proc/42/map_files/7f0000-7f8000'')
        (optional (entry_only 6)) (ex_state\<lparr>opened := [''/proc/42/map_files/7f0000-7f8000'']\<rparr>)
      = (Some (SettingUprobe (OSError 1)),
         ex_state\<lparr>opened := [''/proc/42/map_files/7f0000-7f8000''],
                  attempts := [ExeUprobe (Executable ''/proc/42/map_files/7f0000-7f8000'')
                                 ''SSL_read'' 6 None]\<rparr>)
   \<and> uprobes_funcs (ex_os always_fails) (Executable ''/proc/42/map_files/7f0000-7f8000'')
        [(''SSL_read'', optional (entry_only 6)), (''SSL_write'', entry_only 7)]
        (ex_state\<lparr>opened := [''/proc/42/map_files/7f0000-7f8000'']\<rparr>)
      = uprobes_funcs (ex_os always_fails) (Executable ''/proc/42/map_files/7f0000-7f8000'')
        [(''SSL_write'', entry_only 7)]
        (add_closables (ex_state\<lparr>opened := [''/proc/42/map_files/7f0000-7f8000''],
                  attempts := [ExeUprobe (Executable ''/proc/42/map_files/7f0000-7f8000'')
                                 ''SSL_read'' 6 None]\<rparr>))
   \<and> fst (uprobes_funcs (ex_os always_fails) (Executable ''/proc/42/map_files/7f0000-7f8000'')
        [(''SSL_read'', optional (entry_only 6)), (''SSL_write'', entry_only 7)]
        (ex_state\<lparr>opened := [''/proc/42/map_files/7f0000-7f8000'']\<rparr>))
      = Some (InstrumentingFunction ''SSL_write'' (SettingUprobe (OSError 1)))
   \<and> (\<exists>err t'. uprobes (ex_os always_fails) 42 ex_state = (Some err, t'))"
proof -
  let ?w = "ex_os always_fails"
  let ?path = "''/proc/42/map_files/7f0000-7f8000''"
  let ?exe = "Executable ?path"
  let ?s0 = "ex_state\<lparr>opened := opened ex_state @ [?path]\<rparr>"
  let ?s1 = "ex_state\<lparr>opened := [?path], attempts := [ExeUprobe ?exe ''SSL_read'' 6 None]\<rparr>"
  let ?pMap = "[(''SSL_read'', optional (entry_only 6)), (''SSL_write'', entry_only 7)]"
  have s0: "?s0 = ex_state\<lparr>opened := [?path]\<rparr>" by (simp add: ex_defs)
  have h1: "\<not> Required (optional (entry_only 6))" by (simp add: ex_defs)
  have h2: "uprobe ?w ''SSL_read'' ?exe (optional (entry_only 6)) ?s0
              = (Some (SettingUprobe (OSError 1)), ?s1)"
    by (simp add: ex_defs run_defs)
  have h3: "processMaps ?w 42 = Inr [ex_map]" by (simp add: ex_defs run_defs)
  have h4: "[ex_map] \<noteq> []" by simp
  have h5: "UProbes (tracer ex_state) = [(''libssl.so'', ?pMap)]" by (simp add: ex_defs)
  have h6: "lib_target ?w 42 [ex_map] ''libssl.so'' (tracer ex_state) = Some (?path, 1234)"
    by (simp add: ex_defs run_defs)
  have h7: "OpenExecutable ?w ?path = Inr ?exe" by (simp add: ex_defs)
  have f: "fst (uprobes_funcs ?w ?exe ?pMap ?s0)
             = Some (InstrumentingFunction ''SSL_write'' (SettingUprobe (OSError 1)))"
    by (simp add: ex_defs run_defs)
  then have e: "\<exists>err t'. uprobes_funcs ?w ?exe ?pMap ?s0 = (Some err, t')"
    by (metis prod.collapse)
  note rvo = required_vs_optional [of "?w" "?exe" "?pMap" "?s0" "optional (entry_only 6)" "''SSL_read''"
      "SettingUprobe (OSError 1)" "?s1" "[(''SSL_write'', entry_only 7)]" 42 "[ex_map]" ex_state
      "''libssl.so''" "?path" 1234]
  from rvo h1 h2 have "uprobes_funcs ?w ?exe ?pMap ?s0
      = uprobes_funcs ?w ?exe [(''SSL_write'', entry_only 7)] (add_closables ?s1)"
    by blast
  moreover from rvo h3 h4 h5 h6 h7 e
  have "\<exists>err t'. uprobes ?w 42 ex_state = (Some err, t')"
    by blast
  ultimately show ?thesis using h1 h2 f unfolding s0 by blast
qed

subsection \<open>C5: when an inode is recorded\<close>

lemma uprobes_reaches_step:
  assumes "processMaps w pid = Inr maps" and "maps \<noteq> []"
    and "UProbes (tracer t) = pre @ (lib, pMap) # post"
    and "uprobes_loop w pid maps pre t = (None, t1)"
  shows "uprobes w pid t =
           (case uprobes_lib w pid maps lib pMap t1 of
              (Some err, t2) \<Rightarrow> (Some err, t2)
            | (None, t2) \<Rightarrow> uprobes_loop w pid maps post t2)"
proof -
  from assms(1-3) have "uprobes w pid t = uprobes_loop w pid maps (pre @ (lib, pMap) # post) t"
    by (simp add: uprobes_def)
  also from assms(4) have "\<dots> = uprobes_loop w pid maps ((lib, pMap) # post) t1"
    by (rule uprobes_loop_append)
  also have "\<dots> = (case uprobes_lib w pid maps lib pMap t1 of
              (Some err, t2) \<Rightarrow> (Some err, t2)
            | (None, t2) \<Rightarrow> uprobes_loop w pid maps post t2)"
    by (simp split: prod.splits option.splits)
  finally show ?thesis .
qed

text \<open>
  C5. For one library processed by \<open>uprobes\<close>, the registry only grows, and an inode is
  new in it afterwards only if: it is not 0; the step returned no error; the library
  has a mapping whose inode \<open>os.Stat\<close> determined as this one; the image was opened;
  and the loop over all functions of the library ran to its end without error, the
  registry being untouched until then, the inode being recorded in the state that loop
  left. By then every function of the library has been attempted: the attachment calls
  the step made are all entry or return probes, by symbol name against the opened
  image, of pairs of the library's catalog, and among them are the entry probe of
  every pair and its return probe when the pair has no entry program or is required
  (the return probe of an optional pair is not attempted when its entry probe failed).
  When the library has no mapping (the main executable is the target) or the inode of
  its mapping is not determined, the registry stays as it was, and no state of the
  registry makes the step skip the library: it is scanned again on every call. The
  step is the one \<open>uprobes\<close> runs when its loop reaches the library in the state \<open>s\<close>.
\<close>

theorem inode_recorded_after_all_functions:
  assumes "uprobes_lib w pid maps lib pMap s = (r, s')"
  shows "instrumented_libs (tracer s) \<subseteq> instrumented_libs (tracer s')
    \<and> (\<forall>ino. ino \<in> instrumented_libs (tracer s') \<longrightarrow> ino \<notin> instrumented_libs (tracer s) \<longrightarrow>
          ino \<noteq> 0 \<and> r = None
          \<and> (\<exists>libMap libExe s1 added.
                LibPath w lib maps = Some libMap
                \<and> os_Stat w (map_files_path pid libMap) = Inr (Some ino)
                \<and> OpenExecutable w (map_files_path pid libMap) = Inr libExe
                \<and> uprobes_funcs w libExe pMap (s\<lparr>opened := opened s @ [map_files_path pid libMap]\<rparr>)
                    = (None, s1)
                \<and> instrumented_libs (tracer s1) = instrumented_libs (tracer s)
                \<and> s' = s1\<lparr>tracer := RecordInstrumentedLib ino (tracer s1)\<rparr>
                \<and> attempts s' = attempts s @ added
                \<and> (\<forall>a \<in> set added. \<exists>f progs. (f, progs) \<in> set pMap
                       \<and> ((\<exists>p. Start progs = Some p \<and> a = ExeUprobe libExe f p None)
                          \<or> (\<exists>q. End progs = Some q \<and> a = ExeUretprobe libExe f q)))
                \<and> (\<forall>f progs. (f, progs) \<in> set pMap \<longrightarrow>
                      (\<forall>p. Start progs = Some p \<longrightarrow> ExeUprobe libExe f p None \<in> set added)
                      \<and> (\<forall>q. End progs = Some q \<longrightarrow> Start progs = None \<or> Required progs
                             \<longrightarrow> ExeUretprobe libExe f q \<in> set added))))
    \<and> (LibPath w lib maps = None
         \<or> (\<exists>libMap. LibPath w lib maps = Some libMap
               \<and> (\<forall>ino. os_Stat w (map_files_path pid libMap) \<noteq> Inr (Some ino)))
        \<longrightarrow> instrumented_libs (tracer s') = instrumented_libs (tracer s)
            \<and> (\<forall>p. lib_target w pid maps lib p \<noteq> None))
    \<and> (processMaps w pid = Inr maps \<longrightarrow> maps \<noteq> []
        \<longrightarrow> UProbes (tracer t) = pre @ (lib, pMap) # post
        \<longrightarrow> uprobes_loop w pid maps pre t = (None, s)
        \<longrightarrow> uprobes w pid t =
              (case uprobes_lib w pid maps lib pMap s of
                 (Some err, s2) \<Rightarrow> (Some err, s2)
               | (None, s2) \<Rightarrow> uprobes_loop w pid maps post s2))"
proof (intro conjI allI impI)
  show "instrumented_libs (tracer s) \<subseteq> instrumented_libs (tracer s')"
    using assms by (rule uprobes_lib_registry_mono)
next
  fix ino
  assume new: "ino \<in> instrumented_libs (tracer s')" "ino \<notin> instrumented_libs (tracer s)"
  have ne: "lib_target w pid maps lib (tracer s) \<noteq> None"
  proof
    assume "lib_target w pid maps lib (tracer s) = None"
    with assms have "s' = s" by (simp add: uprobes_lib_def)
    with new show False by simp
  qed
  then obtain instrPath ino' where t: "lib_target w pid maps lib (tracer s) = Some (instrPath, ino')"
    by (cases "lib_target w pid maps lib (tracer s)") auto
  with assms have o: "uprobes_open w instrPath ino' pMap s = (r, s')"
    by (simp add: uprobes_lib_def)
  from uprobes_open_registry [OF o] new have x: "r = None" "ino' \<noteq> 0" "ino' = ino"
    by (auto split: if_splits)
  from lib_target_Some [OF t x(2)] x(3) obtain libMap where
    m: "LibPath w lib maps = Some libMap"
       "os_Stat w (map_files_path pid libMap) = Inr (Some ino)"
       "instrPath = map_files_path pid libMap"
    by auto
  let ?s0 = "s\<lparr>opened := opened s @ [instrPath]\<rparr>"
  from o x(1) obtain libExe where e: "OpenExecutable w instrPath = Inr libExe"
    by (cases "OpenExecutable w instrPath") (simp_all add: uprobes_open_def)
  obtain r1 s1 where f: "uprobes_funcs w libExe pMap ?s0 = (r1, s1)"
    by (cases "uprobes_funcs w libExe pMap ?s0")
  from o e f x(1) have r1: "r1 = None"
    by (cases r1) (simp_all add: uprobes_open_def)
  from o e f r1 x(2,3) have s': "s' = s1\<lparr>tracer := RecordInstrumentedLib ino (tracer s1)\<rparr>"
    by (simp add: uprobes_open_def)
  from uprobes_funcs_frame [OF f]
  have reg: "instrumented_libs (tracer s1) = instrumented_libs (tracer s)" by simp
  from x(2,3) show "ino \<noteq> 0" by simp
  from x(1) show "r = None" .
  from uprobes_funcs_log [OF f, unfolded within_pairs_def covers_pair_def] r1
  obtain added where
    lg: "attempts s1 = attempts ?s0 @ added"
    and ub: "\<forall>a \<in> set added. \<exists>f progs. (f, progs) \<in> set pMap
               \<and> ((\<exists>p. Start progs = Some p \<and> a = ExeUprobe libExe f p None)
                  \<or> (\<exists>q. End progs = Some q \<and> a = ExeUretprobe libExe f q))"
    and lb: "\<forall>f progs. (f, progs) \<in> set pMap \<longrightarrow>
               (\<forall>p. Start progs = Some p \<longrightarrow> ExeUprobe libExe f p None \<in> set added)
               \<and> (\<forall>q. End progs = Some q \<longrightarrow> Start progs = None \<or> Required progs
                      \<longrightarrow> ExeUretprobe libExe f q \<in> set added)"
    by auto
  from lg s' have at: "attempts s' = attempts s @ added" by simp
  show "\<exists>libMap libExe s1 added.
                LibPath w lib maps = Some libMap
                \<and> os_Stat w (map_files_path pid libMap) = Inr (Some ino)
                \<and> OpenExecutable w (map_files_path pid libMap) = Inr libExe
                \<and> uprobes_funcs w libExe pMap (s\<lparr>opened := opened s @ [map_files_path pid libMap]\<rparr>)
                    = (None, s1)
                \<and> instrumented_libs (tracer s1) = instrumented_libs (tracer s)
                \<and> s' = s1\<lparr>tracer := RecordInstrumentedLib ino (tracer s1)\<rparr>
                \<and> attempts s' = attempts s @ added
                \<and> (\<forall>a \<in> set added. \<exists>f progs. (f, progs) \<in> set pMap
                       \<and> ((\<exists>p. Start progs = Some p \<and> a = ExeUprobe libExe f p None)
                          \<or> (\<exists>q. End progs = Some q \<and> a = ExeUretprobe libExe f q)))
                \<and> (\<forall>f progs. (f, progs) \<in> set pMap \<longrightarrow>
                      (\<forall>p. Start progs = Some p \<longrightarrow> ExeUprobe libExe f p None \<in> set added)
                      \<and> (\<forall>q. End progs = Some q \<longrightarrow> Start progs = None \<or> Required progs
                             \<longrightarrow> ExeUretprobe libExe f q \<in> set added))"
  proof (intro exI conjI)
    show "LibPath w lib maps = Some libMap" by (rule m(1))
    show "os_Stat w (map_files_path pid libMap) = Inr (Some ino)" by (rule m(2))
    show "OpenExecutable w (map_files_path pid libMap) = Inr libExe"
      using e m(3) by simp
    show "uprobes_funcs w libExe pMap (s\<lparr>opened := opened s @ [map_files_path pid libMap]\<rparr>)
            = (None, s1)"
      using f r1 m(3) by simp
    show "instrumented_libs (tracer s1) = instrumented_libs (tracer s)" by (rule reg)
    show "s' = s1\<lparr>tracer := RecordInstrumentedLib ino (tracer s1)\<rparr>" by (rule s')
    show "attempts s' = attempts s @ added" by (rule at)
    show "\<forall>a \<in> set added. \<exists>f progs. (f, progs) \<in> set pMap
               \<and> ((\<exists>p. Start progs = Some p \<and> a = ExeUprobe libExe f p None)
                  \<or> (\<exists>q. End progs = Some q \<and> a = ExeUretprobe libExe f q))" by (rule ub)
    show "\<forall>f progs. (f, progs) \<in> set pMap \<longrightarrow>
               (\<forall>p. Start progs = Some p \<longrightarrow> ExeUprobe libExe f p None \<in> set added)
               \<and> (\<forall>q. End progs = Some q \<longrightarrow> Start progs = None \<or> Required progs
                      \<longrightarrow> ExeUretprobe libExe f q \<in> set added)" by (rule lb)
  qed
next
  assume u: "LibPath w lib maps = None
         \<or> (\<exists>libMap. LibPath w lib maps = Some libMap
               \<and> (\<forall>ino. os_Stat w (map_files_path pid libMap) \<noteq> Inr (Some ino)))"
  then have t: "\<exists>instrPath. lib_target w pid maps lib p = Some (instrPath, 0)" for p
    by (auto simp: lib_target_def split: option.splits sum.splits)
  then obtain instrPath where "lib_target w pid maps lib (tracer s) = Some (instrPath, 0)"
    by blast
  with assms have "uprobes_open w instrPath 0 pMap s = (r, s')"
    by (simp add: uprobes_lib_def)
  from uprobes_open_registry [OF this]
  show "instrumented_libs (tracer s') = instrumented_libs (tracer s)" by simp
  fix p
  from t [of p] show "lib_target w pid maps lib p \<noteq> None" by auto
next
  assume "processMaps w pid = Inr maps" "maps \<noteq> []"
    "UProbes (tracer t) = pre @ (lib, pMap) # post"
    "uprobes_loop w pid maps pre t = (None, s)"
  then show "uprobes w pid t =
              (case uprobes_lib w pid maps lib pMap s of
                 (Some err, s2) \<Rightarrow> (Some err, s2)
               | (None, s2) \<Rightarrow> uprobes_loop w pid maps post s2)"
    by (rule uprobes_reaches_step)
qed

text \<open>
  In the example the step for \<open>libssl.so\<close> attempts \<open>SSL_read\<close> and \<open>SSL_write\<close> against
  the mapped file and then records inode 1234.
\<close>

theorem inode_recorded_after_all_functions_witness:
  "fst (uprobes_lib (ex_os never_fails) 42 [ex_map] ''libssl.so''
          [(''SSL_read'', optional (entry_only 6)), (''SSL_write'', entry_only 7)] ex_state) = None
   \<and> instrumented_libs (tracer ex_state) = {}
   \<and> instrumented_libs (tracer (snd (uprobes_lib (ex_os never_fails) 42 [ex_map] ''libssl.so''
          [(''SSL_read'', optional (entry_only 6)), (''SSL_write'', entry_only 7)] ex_state)))
       = {1234}
   \<and> attempts (snd (uprobes_lib (ex_os never_fails) 42 [ex_map] ''libssl.so''
          [(''SSL_read'', optional (entry_only 6)), (''SSL_write'', entry_only 7)] ex_state))
       = [ExeUprobe (Executable ''/proc/42/map_files/7f0000-7f8000'') ''SSL_read'' 6 None,
          ExeUprobe (Executable ''/proc/42/map_files/7f0000-7f8000'') ''SSL_write'' 7 None]
   \<and> (\<exists>s1 added.
         uprobes_funcs (ex_os never_fails) (Executable ''/proc/42/map_files/7f0000-7f8000'')
               [(''SSL_read'', optional (entry_only 6)), (''SSL_write'', entry_only 7)]
               (ex_state\<lparr>opened := opened ex_state @ [''/proc/42/map_files/7f0000-7f8000'']\<rparr>)
           = (None, s1)
         \<and> instrumented_libs (tracer s1) = instrumented_libs (tracer ex_state)
         \<and> attempts (snd (uprobes_lib (ex_os never_fails) 42 [ex_map] ''libssl.so''
               [(''SSL_read'', optional (entry_only 6)), (''SSL_write'', entry_only 7)] ex_state))
             = attempts ex_state @ added
         \<and> ExeUprobe (Executable ''/proc/42/map_files/7f0000-7f8000'') ''SSL_read'' 6 None
             \<in> set added
         \<and> ExeUprobe (Executable ''/proc/42/map_files/7f0000-7f8000'') ''SSL_write'' 7 None
             \<in> set added)
   \<and> processMaps (ex_os never_fails) 42 = Inr [ex_map]
   \<and> UProbes (tracer ex_state)
       = [] @ (''libssl.so'', [(''SSL_read'', optional (entry_only 6)),
                               (''SSL_write'', entry_only 7)]) # []
   \<and> uprobes (ex_os never_fails) 42 ex_state
       = (case uprobes_lib (ex_os never_fails) 42 [ex_map] ''libssl.so''
                 [(''SSL_read'', optional (entry_only 6)), (''SSL_write'', entry_only 7)] ex_state of
            (Some err, s2) \<Rightarrow> (Some err, s2)
          | (None, s2) \<Rightarrow> uprobes_loop (ex_os never_fails) 42 [ex_map] [] s2)"
proof -
  let ?w = "ex_os never_fails"
  let ?path = "''/proc/42/map_files/7f0000-7f8000''"
  let ?exe = "Executable ?path"
  let ?pMap = "[(''SSL_read'', optional (entry_only 6)), (''SSL_write'', entry_only 7)]"
  let ?run = "uprobes_lib ?w 42 [ex_map] ''libssl.so'' ?pMap ex_state"
  have f: "fst ?run = None"
    by (simp add: ex_defs run_defs)
  have r0: "instrumented_libs (tracer ex_state) = {}"
    by (simp add: ex_defs)
  have r1: "instrumented_libs (tracer (snd ?run)) = {1234}"
    by (simp add: ex_defs run_defs)
  have at: "attempts (snd ?run)
       = [ExeUprobe ?exe ''SSL_read'' 6 None, ExeUprobe ?exe ''SSL_write'' 7 None]"
    by (simp add: ex_defs run_defs)
  have lp: "LibPath ?w ''libssl.so'' [ex_map] = Some ex_map"
    by (simp add: ex_defs)
  have mp: "map_files_path 42 ex_map = ?path"
    by (simp add: ex_defs run_defs)
  have op: "OpenExecutable ?w ?path = Inr ?exe"
    by (simp add: ex_defs)
  have st: "Start (optional (entry_only 6)) = Some 6" "Start (entry_only 7) = Some 7"
    by (simp_all add: ex_defs)
  from f have h: "?run = (None, snd ?run)" by (metis prod.collapse)
  have l1: "processMaps ?w 42 = Inr [ex_map]" and l2: "[ex_map] \<noteq> []"
    and l3: "UProbes (tracer ex_state) = [] @ (''libssl.so'', ?pMap) # []"
    and l4: "uprobes_loop ?w 42 [ex_map] [] ex_state = (None, ex_state)"
    by (simp_all add: ex_defs run_defs)
  note lift = inode_recorded_after_all_functions [OF h, where t = ex_state and pre = "[]"
      and post = "[]", THEN conjunct2, THEN conjunct2, THEN conjunct2, rule_format,
      OF l1 l2 l3 l4]
  have n1: "1234 \<in> instrumented_libs (tracer (snd ?run))"
    and n0: "1234 \<notin> instrumented_libs (tracer ex_state)"
    using r0 r1 by simp_all
  note rec = inode_recorded_after_all_functions [OF h, THEN conjunct2, THEN conjunct1,
      rule_format, OF n1 n0, THEN conjunct2, THEN conjunct2]
  then obtain libMap libExe s1 added where
    x: "LibPath ?w ''libssl.so'' [ex_map] = Some libMap"
       "OpenExecutable ?w (map_files_path 42 libMap) = Inr libExe"
       "uprobes_funcs ?w libExe ?pMap
          (ex_state\<lparr>opened := opened ex_state @ [map_files_path 42 libMap]\<rparr>) = (None, s1)"
       "instrumented_libs (tracer s1) = instrumented_libs (tracer ex_state)"
       "attempts (snd ?run) = attempts ex_state @ added"
    and lb: "\<forall>f progs. (f, progs) \<in> set ?pMap \<longrightarrow>
               (\<forall>p. Start progs = Some p \<longrightarrow> ExeUprobe libExe f p None \<in> set added)
               \<and> (\<forall>q. End progs = Some q \<longrightarrow> Start progs = None \<or> Required progs
                      \<longrightarrow> ExeUretprobe libExe f q \<in> set added)"
    by blast
  from x(1) lp have lm: "libMap = ex_map" by simp
  with x(2) mp op have le: "libExe = ?exe" by simp
  from lb st le have m1: "ExeUprobe ?exe ''SSL_read'' 6 None \<in> set added"
    and m2: "ExeUprobe ?exe ''SSL_write'' 7 None \<in> set added"
    by simp_all
  from x(3) lm le mp have u: "uprobes_funcs ?w ?exe ?pMap
          (ex_state\<lparr>opened := opened ex_state @ [?path]\<rparr>) = (None, s1)"
    by simp
  from u x(4,5) m1 m2 have
    "\<exists>s1 added. uprobes_funcs ?w ?exe ?pMap (ex_state\<lparr>opened := opened ex_state @ [?path]\<rparr>)
           = (None, s1)
         \<and> instrumented_libs (tracer s1) = instrumented_libs (tracer ex_state)
         \<and> attempts (snd ?run) = attempts ex_state @ added
         \<and> ExeUprobe ?exe ''SSL_read'' 6 None \<in> set added
         \<and> ExeUprobe ?exe ''SSL_write'' 7 None \<in> set added"
    by blast
  with f r0 r1 at l1 l3 lift show ?thesis by (intro conjI)
qed

subsection \<open>C6: a library already instrumented\<close>

text \<open>
  C6. When the library has a mapping and the inode of the mapped file is already in
  the registry of the traced entity, the step for this library returns no error and
  leaves the whole state as it was: no image is opened, no attachment is made, no
  handle is created and nothing reaches the sink. When the inode is not in the registry
  the step goes on to open the image and attach the library's functions. Consequently,
  when every library of the catalog has a mapping with an inode other than 0 and a
  first call of \<open>uprobes\<close> returns no error, a second call in the state the first one
  left, with the same memory map, returns no error and changes nothing, also when it
  visits the entries of the catalog in another order \<open>cat'\<close>.
\<close>

theorem instrumented_library_skipped:
  "(LibPath w lib maps = Some libMap
      \<longrightarrow> os_Stat w (map_files_path pid libMap) = Inr (Some ino)
      \<longrightarrow> (if AlreadyInstrumentedLib (tracer s) ino
           then uprobes_lib w pid maps lib pMap s = (None, s)
           else uprobes_lib w pid maps lib pMap s
                  = uprobes_open w (map_files_path pid libMap) ino pMap s))
   \<and> (processMaps w pid = Inr maps
      \<longrightarrow> (\<forall>(lib, pMap) \<in> set (UProbes (tracer s)).
             \<exists>libMap ino. LibPath w lib maps = Some libMap
               \<and> os_Stat w (map_files_path pid libMap) = Inr (Some ino) \<and> ino \<noteq> 0)
      \<longrightarrow> uprobes w pid s = (None, s1)
      \<longrightarrow> uprobes w pid s1 = (None, s1)
          \<and> (set cat' = set (UProbes (tracer s))
               \<longrightarrow> uprobes w pid (s1\<lparr>tracer := (tracer s1)\<lparr>UProbes := cat'\<rparr>\<rparr>)
                     = (None, s1\<lparr>tracer := (tracer s1)\<lparr>UProbes := cat'\<rparr>\<rparr>)))"
proof (intro conjI impI)
  assume "LibPath w lib maps = Some libMap"
    and "os_Stat w (map_files_path pid libMap) = Inr (Some ino)"
  then show "if AlreadyInstrumentedLib (tracer s) ino
           then uprobes_lib w pid maps lib pMap s = (None, s)
           else uprobes_lib w pid maps lib pMap s
                  = uprobes_open w (map_files_path pid libMap) ino pMap s"
    by (simp add: uprobes_lib_def lib_target_def)
next
  assume pm: "processMaps w pid = Inr maps"
    and ino: "\<forall>(lib, pMap) \<in> set (UProbes (tracer s)).
             \<exists>libMap ino. LibPath w lib maps = Some libMap
               \<and> os_Stat w (map_files_path pid libMap) = Inr (Some ino) \<and> ino \<noteq> 0"
    and first: "uprobes w pid s = (None, s1)"
  have again: "uprobes w pid (s1\<lparr>tracer := (tracer s1)\<lparr>UProbes := cat\<rparr>\<rparr>)
                 = (None, s1\<lparr>tracer := (tracer s1)\<lparr>UProbes := cat\<rparr>\<rparr>)"
    if cat: "set cat = set (UProbes (tracer s))" for cat
  proof (cases "length maps = 0")
    case True
    with pm show ?thesis by (simp add: uprobes_def)
  next
    case False
    let ?s2 = "s1\<lparr>tracer := (tracer s1)\<lparr>UProbes := cat\<rparr>\<rparr>"
    from False pm first have run: "uprobes_loop w pid maps (UProbes (tracer s)) s = (None, s1)"
      by (simp add: uprobes_def)
    have "uprobes_loop w pid maps cat ?s2 = (None, ?s2)"
    proof (rule uprobes_loop_all_skipped)
      fix lib pMap
      assume "(lib, pMap) \<in> set cat"
      with cat have mem: "(lib, pMap) \<in> set (UProbes (tracer s))" by simp
      with ino obtain libMap i where
        i: "LibPath w lib maps = Some libMap"
           "os_Stat w (map_files_path pid libMap) = Inr (Some i)" "i \<noteq> 0"
        by blast
      then have "has_inode w pid maps lib i" by (simp add: has_inode_def)
      from uprobes_loop_ok_recorded [OF run mem this i(3)]
      have "AlreadyInstrumentedLib (tracer ?s2) i" by (simp add: AlreadyInstrumentedLib_def)
      with i show "lib_target w pid maps lib (tracer ?s2) = None"
        by (simp add: lib_target_def)
    qed
    with pm False show ?thesis by (simp add: uprobes_def)
  qed
  have same: "s1\<lparr>tracer := (tracer s1)\<lparr>UProbes := UProbes (tracer s1)\<rparr>\<rparr> = s1"
    by simp
  have cat1: "UProbes (tracer s1) = UProbes (tracer s)"
  proof (cases "length maps = 0")
    case True
    with pm first show ?thesis by (simp add: uprobes_def)
  next
    case False
    with pm first have "uprobes_loop w pid maps (UProbes (tracer s)) s = (None, s1)"
      by (simp add: uprobes_def)
    then show ?thesis by (rule uprobes_loop_catalog)
  qed
  have "set (UProbes (tracer s1)) = set (UProbes (tracer s))"
    by (simp only: cat1)
  from again [OF this] show "uprobes w pid s1 = (None, s1)"
    unfolding same .
  assume "set cat' = set (UProbes (tracer s))"
  then show "uprobes w pid (s1\<lparr>tracer := (tracer s1)\<lparr>UProbes := cat'\<rparr>\<rparr>)
               = (None, s1\<lparr>tracer := (tracer s1)\<lparr>UProbes := cat'\<rparr>\<rparr>)"
    by (rule again)
qed

text \<open>
  The scenario of the specification: \<open>/lib/libssl.so\<close> is backed by inode 1234. The
  first call attaches the two functions and records the inode; the second attaches
  nothing.
\<close>

theorem instrumented_library_skipped_witness:
  "processMaps (ex_os never_fails) 42 = Inr [ex_map]
   \<and> fst (uprobes (ex_os never_fails) 42 ex_state) = None
   \<and> attempts (snd (uprobes (ex_os never_fails) 42 ex_state))
       = [ExeUprobe (Executable ''/proc/42/map_files/7f0000-7f8000'') ''SSL_read'' 6 None,
          ExeUprobe (Executable ''/proc/42/map_files/7f0000-7f8000'') ''SSL_write'' 7 None]
   \<and> instrumented_libs (tracer (snd (uprobes (ex_os never_fails) 42 ex_state))) = {1234}
   \<and> uprobes (ex_os never_fails) 42 (snd (uprobes (ex_os never_fails) 42 ex_state))
       = (None, snd (uprobes (ex_os never_fails) 42 ex_state))"
proof -
  let ?w = "ex_os never_fails"
  let ?first = "uprobes ?w 42 ex_state"
  have h1: "processMaps ?w 42 = Inr [ex_map]"
    by (simp add: ex_defs run_defs)
  have h2: "\<forall>(lib, pMap) \<in> set (UProbes (tracer ex_state)).
             \<exists>libMap ino. LibPath ?w lib [ex_map] = Some libMap
               \<and> os_Stat ?w (map_files_path 42 libMap) = Inr (Some ino) \<and> ino \<noteq> 0"
    by (simp add: ex_defs)
  have f: "fst ?first = None"
    by (simp add: ex_defs run_defs)
  have a: "attempts (snd ?first)
       = [ExeUprobe (Executable ''/proc/42/map_files/7f0000-7f8000'') ''SSL_read'' 6 None,
          ExeUprobe (Executable ''/proc/42/map_files/7f0000-7f8000'') ''SSL_write'' 7 None]"
    by (simp add: ex_defs run_defs)
  have r: "instrumented_libs (tracer (snd ?first)) = {1234}"
    by (simp add: ex_defs run_defs)
  from f have h3: "?first = (None, snd ?first)" by (metis prod.collapse)
  from instrumented_library_skipped [of "?w" "''libssl.so''" "[ex_map]" ex_map 42 1234 ex_state
      "[]" "snd ?first" "[]"] h1 h2 h3
  have "uprobes ?w 42 (snd ?first) = (None, snd ?first)"
    by blast
  with h1 f a r show ?thesis by blast
qed

subsection \<open>C7: the library is not mapped\<close>

text \<open>
  C7. When no mapping matches the requested library name, the attachment target is
  the main executable image of the process, at the path \<open>/proc/<pid>/exe\<close>, with no
  inode to record, whatever the registry holds. The step opens that image and, when it
  opens, runs the loop over the library's functions against it; its result is the
  result of that loop, or the error of the open. The path is given to
  \<open>link.OpenExecutable\<close> in every such step, from any state, and the registry is left
  as it was.

  In terms of the attachment calls made: when the open fails the step makes none and
  returns that error. When it gives the image \<open>libExe\<close>, every call the step makes is
  the entry or the return probe, by symbol name against \<open>libExe\<close>, of a pair of the
  library's catalog \<open>pMap\<close>; when the step returns no error, the entry probe of every
  pair of \<open>pMap\<close> has been attempted, and so has its return probe when the pair has no
  entry program or is required; when it returns an error, the last call made is a probe
  of a required pair of \<open>pMap\<close>, which the platform refused.

  In \<open>uprobes\<close>: when the memory map is read and not empty, and the loop reaches the
  library (the entries \<open>pre\<close> visited before it end without error in \<open>t1\<close>), \<open>uprobes\<close>
  runs this step in \<open>t1\<close>; the path is the next one it opens, and when it returns no
  error the probes of every pair of \<open>pMap\<close> are among the calls it made after \<open>t1\<close>.
\<close>

theorem static_fallback:
  assumes "LibPath w lib maps = None"
  shows "lib_target w pid maps lib p = Some (''/proc/'' @ fmt_d pid @ ''/exe'', 0)
    \<and> uprobes_lib w pid maps lib pMap s =
        (case OpenExecutable w (''/proc/'' @ fmt_d pid @ ''/exe'') of
           Inl err \<Rightarrow> (Some err, s\<lparr>opened := opened s @ [''/proc/'' @ fmt_d pid @ ''/exe'']\<rparr>)
         | Inr libExe \<Rightarrow>
             uprobes_funcs w libExe pMap (s\<lparr>opened := opened s @ [''/proc/'' @ fmt_d pid @ ''/exe'']\<rparr>))
    \<and> opened (snd (uprobes_lib w pid maps lib pMap s)) = opened s @ [''/proc/'' @ fmt_d pid @ ''/exe'']
    \<and> instrumented_libs (tracer (snd (uprobes_lib w pid maps lib pMap s)))
         = instrumented_libs (tracer s)
    \<and> (\<forall>r s'. uprobes_lib w pid maps lib pMap s = (r, s') \<longrightarrow>
         (\<forall>e. OpenExecutable w (''/proc/'' @ fmt_d pid @ ''/exe'') = Inl e
              \<longrightarrow> r = Some e \<and> attempts s' = attempts s)
         \<and> (\<forall>libExe. OpenExecutable w (''/proc/'' @ fmt_d pid @ ''/exe'') = Inr libExe \<longrightarrow>
              (\<exists>added. attempts s' = attempts s @ added
                 \<and> (\<forall>a \<in> set added. \<exists>f progs. (f, progs) \<in> set pMap
                        \<and> ((\<exists>p. Start progs = Some p \<and> a = ExeUprobe libExe f p None)
                           \<or> (\<exists>q. End progs = Some q \<and> a = ExeUretprobe libExe f q)))
                 \<and> (r = None \<longrightarrow>
                      (\<forall>f progs. (f, progs) \<in> set pMap \<longrightarrow>
                         (\<forall>p. Start progs = Some p \<longrightarrow> ExeUprobe libExe f p None \<in> set added)
                         \<and> (\<forall>q. End progs = Some q \<longrightarrow> Start progs = None \<or> Required progs
                                \<longrightarrow> ExeUretprobe libExe f q \<in> set added)))
                 \<and> (\<forall>err. r = Some err \<longrightarrow>
                      (\<exists>f progs e. (f, progs) \<in> set pMap \<and> Required progs
                         \<and> err = InstrumentingFunction f e
                         \<and> (\<exists>hist a e'. attempts s' = hist @ [a] \<and> link_attach w hist a = Some e'
                              \<and> ((\<exists>p. Start progs = Some p \<and> a = ExeUprobe libExe f p None
                                      \<and> e = SettingUprobe e')
                                 \<or> (\<exists>q. End progs = Some q \<and> a = ExeUretprobe libExe f q
                                      \<and> e = SettingUretprobe e'))))))))
    \<and> (processMaps w pid = Inr maps \<longrightarrow> maps \<noteq> []
        \<longrightarrow> UProbes (tracer t) = pre @ (lib, pMap) # post
        \<longrightarrow> uprobes_loop w pid maps pre t = (None, t1)
        \<longrightarrow> uprobes w pid t =
              (case uprobes_lib w pid maps lib pMap t1 of
                 (Some err, t2) \<Rightarrow> (Some err, t2)
               | (None, t2) \<Rightarrow> uprobes_loop w pid maps post t2)
            \<and> (\<forall>r t'. uprobes w pid t = (r, t') \<longrightarrow>
                 (\<exists>b. opened t' = opened t1 @ (''/proc/'' @ fmt_d pid @ ''/exe'') # b)
                 \<and> (\<forall>libExe. OpenExecutable w (''/proc/'' @ fmt_d pid @ ''/exe'') = Inr libExe
                       \<longrightarrow> r = None \<longrightarrow>
                       (\<exists>added after. attempts t' = attempts t1 @ added @ after
                          \<and> (\<forall>a \<in> set added. \<exists>f progs. (f, progs) \<in> set pMap
                                 \<and> ((\<exists>p. Start progs = Some p \<and> a = ExeUprobe libExe f p None)
                                    \<or> (\<exists>q. End progs = Some q \<and> a = ExeUretprobe libExe f q)))
                          \<and> (\<forall>f progs. (f, progs) \<in> set pMap \<longrightarrow>
                                (\<forall>p. Start progs = Some p
                                      \<longrightarrow> ExeUprobe libExe f p None \<in> set added)
                                \<and> (\<forall>q. End progs = Some q
                                      \<longrightarrow> Start progs = None \<or> Required progs
                                      \<longrightarrow> ExeUretprobe libExe f q \<in> set added))))))"
proof -
  let ?path = "''/proc/'' @ fmt_d pid @ ''/exe''"
  have p: "proc_exe_path pid = ?path" by (simp only: proc_exe_path_def)
  from assms have t: "lib_target w pid maps lib p = Some (?path, 0)" for p
    by (simp add: lib_target_def p)
  then have l: "uprobes_lib w pid maps lib pMap s = uprobes_open w ?path 0 pMap s"
    by (simp add: uprobes_lib_def)
  obtain r0 s0 where o: "uprobes_open w ?path 0 pMap s = (r0, s0)"
    by (cases "uprobes_open w ?path 0 pMap s")
  have c1: "lib_target w pid maps lib p = Some (?path, 0)" by (rule t)
  have c2: "uprobes_lib w pid maps lib pMap s =
        (case OpenExecutable w ?path of
           Inl err \<Rightarrow> (Some err, s\<lparr>opened := opened s @ [?path]\<rparr>)
         | Inr libExe \<Rightarrow> uprobes_funcs w libExe pMap (s\<lparr>opened := opened s @ [?path]\<rparr>))"
    using l by (simp only: uprobes_open_no_inode)
  from uprobes_open_opened [OF o] l o
  have c3: "opened (snd (uprobes_lib w pid maps lib pMap s)) = opened s @ [?path]" by simp
  from uprobes_open_registry [OF o] l o
  have c4: "instrumented_libs (tracer (snd (uprobes_lib w pid maps lib pMap s)))
              = instrumented_libs (tracer s)"
    by simp
  have c5: "\<forall>r s'. uprobes_lib w pid maps lib pMap s = (r, s') \<longrightarrow>
         (\<forall>e. OpenExecutable w ?path = Inl e \<longrightarrow> r = Some e \<and> attempts s' = attempts s)
         \<and> (\<forall>libExe. OpenExecutable w ?path = Inr libExe \<longrightarrow>
              (\<exists>added. attempts s' = attempts s @ added
                 \<and> (\<forall>a \<in> set added. \<exists>f progs. (f, progs) \<in> set pMap
                        \<and> ((\<exists>p. Start progs = Some p \<and> a = ExeUprobe libExe f p None)
                           \<or> (\<exists>q. End progs = Some q \<and> a = ExeUretprobe libExe f q)))
                 \<and> (r = None \<longrightarrow>
                      (\<forall>f progs. (f, progs) \<in> set pMap \<longrightarrow>
                         (\<forall>p. Start progs = Some p \<longrightarrow> ExeUprobe libExe f p None \<in> set added)
                         \<and> (\<forall>q. End progs = Some q \<longrightarrow> Start progs = None \<or> Required progs
                                \<longrightarrow> ExeUretprobe libExe f q \<in> set added)))
                 \<and> (\<forall>err. r = Some err \<longrightarrow>
                      (\<exists>f progs e. (f, progs) \<in> set pMap \<and> Required progs
                         \<and> err = InstrumentingFunction f e
                         \<and> (\<exists>hist a e'. attempts s' = hist @ [a] \<and> link_attach w hist a = Some e'
                              \<and> ((\<exists>p. Start progs = Some p \<and> a = ExeUprobe libExe f p None
                                      \<and> e = SettingUprobe e')
                                 \<or> (\<exists>q. End progs = Some q \<and> a = ExeUretprobe libExe f q
                                      \<and> e = SettingUretprobe e')))))))"
  proof (intro allI impI)
    fix r s'
    assume "uprobes_lib w pid maps lib pMap s = (r, s')"
    with l have "uprobes_open w ?path 0 pMap s = (r, s')" by simp
    from uprobes_open_log [OF this, unfolded within_pairs_def covers_pair_def failed_at_def]
    show "(\<forall>e. OpenExecutable w ?path = Inl e \<longrightarrow> r = Some e \<and> attempts s' = attempts s)
         \<and> (\<forall>libExe. OpenExecutable w ?path = Inr libExe \<longrightarrow>
              (\<exists>added. attempts s' = attempts s @ added
                 \<and> (\<forall>a \<in> set added. \<exists>f progs. (f, progs) \<in> set pMap
                        \<and> ((\<exists>p. Start progs = Some p \<and> a = ExeUprobe libExe f p None)
                           \<or> (\<exists>q. End progs = Some q \<and> a = ExeUretprobe libExe f q)))
                 \<and> (r = None \<longrightarrow>
                      (\<forall>f progs. (f, progs) \<in> set pMap \<longrightarrow>
                         (\<forall>p. Start progs = Some p \<longrightarrow> ExeUprobe libExe f p None \<in> set added)
                         \<and> (\<forall>q. End progs = Some q \<longrightarrow> Start progs = None \<or> Required progs
                                \<longrightarrow> ExeUretprobe libExe f q \<in> set added)))
                 \<and> (\<forall>err. r = Some err \<longrightarrow>
                      (\<exists>f progs e. (f, progs) \<in> set pMap \<and> Required progs
                         \<and> err = InstrumentingFunction f e
                         \<and> (\<exists>hist a e'. attempts s' = hist @ [a] \<and> link_attach w hist a = Some e'
                              \<and> ((\<exists>p. Start progs = Some p \<and> a = ExeUprobe libExe f p None
                                      \<and> e = SettingUprobe e')
                                 \<or> (\<exists>q. End progs = Some q \<and> a = ExeUretprobe libExe f q
                                      \<and> e = SettingUretprobe e')))))))" .
  qed
  have c6: "processMaps w pid = Inr maps \<longrightarrow> maps \<noteq> []
        \<longrightarrow> UProbes (tracer t) = pre @ (lib, pMap) # post
        \<longrightarrow> uprobes_loop w pid maps pre t = (None, t1)
        \<longrightarrow> uprobes w pid t =
              (case uprobes_lib w pid maps lib pMap t1 of
                 (Some err, t2) \<Rightarrow> (Some err, t2)
               | (None, t2) \<Rightarrow> uprobes_loop w pid maps post t2)
            \<and> (\<forall>r t'. uprobes w pid t = (r, t') \<longrightarrow>
                 (\<exists>b. opened t' = opened t1 @ ?path # b)
                 \<and> (\<forall>libExe. OpenExecutable w ?path = Inr libExe
                       \<longrightarrow> r = None \<longrightarrow>
                       (\<exists>added after. attempts t' = attempts t1 @ added @ after
                          \<and> (\<forall>a \<in> set added. \<exists>f progs. (f, progs) \<in> set pMap
                                 \<and> ((\<exists>p. Start progs = Some p \<and> a = ExeUprobe libExe f p None)
                                    \<or> (\<exists>q. End progs = Some q \<and> a = ExeUretprobe libExe f q)))
                          \<and> (\<forall>f progs. (f, progs) \<in> set pMap \<longrightarrow>
                                (\<forall>p. Start progs = Some p
                                      \<longrightarrow> ExeUprobe libExe f p None \<in> set added)
                                \<and> (\<forall>q. End progs = Some q
                                      \<longrightarrow> Start progs = None \<or> Required progs
                                      \<longrightarrow> ExeUretprobe libExe f q \<in> set added)))))"
  proof (intro impI)
    assume "processMaps w pid = Inr maps" "maps \<noteq> []"
      "UProbes (tracer t) = pre @ (lib, pMap) # post"
      "uprobes_loop w pid maps pre t = (None, t1)"
    from fallback_in_uprobes [OF assms this,
        unfolded within_pairs_def covers_pair_def proc_exe_path_def]
    show "uprobes w pid t =
              (case uprobes_lib w pid maps lib pMap t1 of
                 (Some err, t2) \<Rightarrow> (Some err, t2)
               | (None, t2) \<Rightarrow> uprobes_loop w pid maps post t2)
            \<and> (\<forall>r t'. uprobes w pid t = (r, t') \<longrightarrow>
                 (\<exists>b. opened t' = opened t1 @ ?path # b)
                 \<and> (\<forall>libExe. OpenExecutable w ?path = Inr libExe
                       \<longrightarrow> r = None \<longrightarrow>
                       (\<exists>added after. attempts t' = attempts t1 @ added @ after
                          \<and> (\<forall>a \<in> set added. \<exists>f progs. (f, progs) \<in> set pMap
                                 \<and> ((\<exists>p. Start progs = Some p \<and> a = ExeUprobe libExe f p None)
                                    \<or> (\<exists>q. End progs = Some q \<and> a = ExeUretprobe libExe f q)))
                          \<and> (\<forall>f progs. (f, progs) \<in> set pMap \<longrightarrow>
                                (\<forall>p. Start progs = Some p
                                      \<longrightarrow> ExeUprobe libExe f p None \<in> set added)
                                \<and> (\<forall>q. End progs = Some q
                                      \<longrightarrow> Start progs = None \<or> Required progs
                                      \<longrightarrow> ExeUretprobe libExe f q \<in> set added)))))" .
  qed
  from c1 c2 c3 c4 c5 c6 show ?thesis by (intro conjI)
qed

text \<open>
  In the example the process id is 42 and no mapping matches \<open>libcrypto.so\<close>. The step
  opens \<open>/proc/42/exe\<close> and attempts \<open>SHA1_Init\<close> against it. In a call of \<open>uprobes\<close>
  for \<open>libssl.so\<close> and then \<open>libcrypto.so\<close>, the mapped file of \<open>libssl.so\<close> is opened
  first and then \<open>/proc/42/exe\<close>, and \<open>SHA1_Init\<close> is attempted after the two functions
  of \<open>libssl.so\<close>.
\<close>

theorem static_fallback_witness:
  "LibPath (ex_os never_fails) ''libcrypto.so'' [ex_map] = None
   \<and> lib_target (ex_os never_fails) 42 [ex_map] ''libcrypto.so'' (tracer ex_state)
       = Some (''/proc/42/exe'', 0)
   \<and> opened (snd (uprobes_lib (ex_os never_fails) 42 [ex_map] ''libcrypto.so''
                     [(''SHA1_Init'', optional (entry_only 8))] ex_state))
       = [''/proc/42/exe'']
   \<and> instrumented_libs (tracer (snd (uprobes_lib (ex_os never_fails) 42 [ex_map] ''libcrypto.so''
                     [(''SHA1_Init'', optional (entry_only 8))] ex_state)))
       = {}
   \<and> attempts (snd (uprobes_lib (ex_os never_fails) 42 [ex_map] ''libcrypto.so''
                     [(''SHA1_Init'', optional (entry_only 8))] ex_state))
       = [ExeUprobe (Executable ''/proc/42/exe'') ''SHA1_Init'' 8 None]
   \<and> (\<exists>added. attempts (snd (uprobes_lib (ex_os never_fails) 42 [ex_map] ''libcrypto.so''
                     [(''SHA1_Init'', optional (entry_only 8))] ex_state))
                 = attempts ex_state @ added
          \<and> ExeUprobe (Executable ''/proc/42/exe'') ''SHA1_Init'' 8 None \<in> set added)
   \<and> processMaps (ex_os never_fails) 42 = Inr [ex_map]
   \<and> UProbes (tracer ex_state_two_libs)
       = [(''libssl.so'', [(''SSL_read'', optional (entry_only 6)), (''SSL_write'', entry_only 7)])]
         @ (''libcrypto.so'', [(''SHA1_Init'', optional (entry_only 8))]) # []
   \<and> fst (uprobes (ex_os never_fails) 42 ex_state_two_libs) = None
   \<and> opened (snd (uprobes (ex_os never_fails) 42 ex_state_two_libs))
       = [''/proc/42/map_files/7f0000-7f8000'', ''/proc/42/exe'']
   \<and> attempts (snd (uprobes (ex_os never_fails) 42 ex_state_two_libs))
       = [ExeUprobe (Executable ''/proc/42/map_files/7f0000-7f8000'') ''SSL_read'' 6 None,
          ExeUprobe (Executable ''/proc/42/map_files/7f0000-7f8000'') ''SSL_write'' 7 None,
          ExeUprobe (Executable ''/proc/42/exe'') ''SHA1_Init'' 8 None]
   \<and> (\<exists>added after.
         attempts (snd (uprobes (ex_os never_fails) 42 ex_state_two_libs))
           = attempts (snd (uprobes_loop (ex_os never_fails) 42 [ex_map]
               [(''libssl.so'', [(''SSL_read'', optional (entry_only 6)),
                                 (''SSL_write'', entry_only 7)])] ex_state_two_libs))
             @ added @ after
         \<and> ExeUprobe (Executable ''/proc/42/exe'') ''SHA1_Init'' 8 None \<in> set added)"
proof -
  let ?w = "ex_os never_fails"
  let ?pm = "[(''SHA1_Init'', optional (entry_only 8))]"
  let ?ssl = "[(''libssl.so'', [(''SSL_read'', optional (entry_only 6)), (''SSL_write'', entry_only 7)])]"
  let ?step = "uprobes_lib ?w 42 [ex_map] ''libcrypto.so'' ?pm ex_state"
  let ?pre = "uprobes_loop ?w 42 [ex_map] ?ssl ex_state_two_libs"
  let ?all = "uprobes ?w 42 ex_state_two_libs"
  let ?req = "ExeUprobe (Executable ''/proc/42/exe'') ''SHA1_Init'' 8 None"
  have h: "LibPath ?w ''libcrypto.so'' [ex_map] = None"
    by (simp add: ex_defs)
  have p: "''/proc/'' @ fmt_d 42 @ ''/exe'' = ''/proc/42/exe''"
    by (simp add: fmt_d_def fmt_base.simps digit_char_def)
  have o: "opened ex_state = []" and r: "instrumented_libs (tracer ex_state) = {}"
    by (simp_all add: ex_defs)
  have op: "OpenExecutable ?w ''/proc/42/exe'' = Inr (Executable ''/proc/42/exe'')"
    by (simp add: ex_defs)
  have st: "Start (optional (entry_only 8)) = Some 8" and m: "(''SHA1_Init'', optional (entry_only 8)) \<in> set ?pm"
    by (simp_all add: ex_defs)
  have e1: "fst ?step = None" and e2: "attempts (snd ?step) = [?req]"
    by (simp_all add: ex_defs run_defs)
  have h1: "processMaps ?w 42 = Inr [ex_map]" and h2: "[ex_map] \<noteq> []"
    and h3: "UProbes (tracer ex_state_two_libs) = ?ssl @ (''libcrypto.so'', ?pm) # []"
    by (simp_all add: ex_defs run_defs)
  have e3: "fst ?pre = None" and e4: "fst ?all = None"
    and e5: "opened (snd ?all) = [''/proc/42/map_files/7f0000-7f8000'', ''/proc/42/exe'']"
    and e6: "attempts (snd ?all)
       = [ExeUprobe (Executable ''/proc/42/map_files/7f0000-7f8000'') ''SSL_read'' 6 None,
          ExeUprobe (Executable ''/proc/42/map_files/7f0000-7f8000'') ''SSL_write'' 7 None, ?req]"
    by (simp_all add: ex_defs run_defs)
  from e1 have hs: "?step = (None, snd ?step)" by (metis prod.collapse)
  from e3 have h4: "?pre = (None, snd ?pre)" by (metis prod.collapse)
  from e4 have ha: "?all = (None, snd ?all)" by (metis prod.collapse)
  note fb = static_fallback [OF h, where pid = 42 and p = "tracer ex_state" and pMap = "?pm"
      and s = ex_state and t = ex_state_two_libs and pre = "?ssl" and post = "[]"
      and ?t1.0 = "snd ?pre", unfolded p]
  from fb have b1: "lib_target ?w 42 [ex_map] ''libcrypto.so'' (tracer ex_state)
       = Some (''/proc/42/exe'', 0)"
    by (rule conjunct1)
  from fb have b3: "opened (snd ?step) = opened ex_state @ [''/proc/42/exe'']"
    by (elim conjE)
  from fb have b4: "instrumented_libs (tracer (snd ?step)) = instrumented_libs (tracer ex_state)"
    by (elim conjE)
  note b5 = fb [THEN conjunct2, THEN conjunct2, THEN conjunct2, THEN conjunct2, THEN conjunct1,
      rule_format, OF hs, THEN conjunct2, rule_format, OF op]
  then obtain added where
    a: "attempts (snd ?step) = attempts ex_state @ added"
    and lb: "\<forall>f progs. (f, progs) \<in> set ?pm \<longrightarrow>
               (\<forall>p. Start progs = Some p
                  \<longrightarrow> ExeUprobe (Executable ''/proc/42/exe'') f p None \<in> set added)
               \<and> (\<forall>q. End progs = Some q \<longrightarrow> Start progs = None \<or> Required progs
                      \<longrightarrow> ExeUretprobe (Executable ''/proc/42/exe'') f q \<in> set added)"
    by blast
  from lb m st have "?req \<in> set added" by blast
  with a have w1: "\<exists>added. attempts (snd ?step) = attempts ex_state @ added \<and> ?req \<in> set added"
    by blast
  note b6 = fb [THEN conjunct2, THEN conjunct2, THEN conjunct2, THEN conjunct2, THEN conjunct2,
      rule_format, OF h1 h2 h3 h4, THEN conjunct2, rule_format, OF ha, THEN conjunct2,
      rule_format, OF op refl]
  then obtain added2 after where
    a2: "attempts (snd ?all) = attempts (snd ?pre) @ added2 @ after"
    and lb2: "\<forall>f progs. (f, progs) \<in> set ?pm \<longrightarrow>
               (\<forall>p. Start progs = Some p
                  \<longrightarrow> ExeUprobe (Executable ''/proc/42/exe'') f p None \<in> set added2)
               \<and> (\<forall>q. End progs = Some q \<longrightarrow> Start progs = None \<or> Required progs
                      \<longrightarrow> ExeUretprobe (Executable ''/proc/42/exe'') f q \<in> set added2)"
    by blast
  from lb2 m st have "?req \<in> set added2" by blast
  with a2 have w2: "\<exists>added after. attempts (snd ?all) = attempts (snd ?pre) @ added @ after
         \<and> ?req \<in> set added"
    by blast
  from b3 o have c3: "opened (snd ?step) = [''/proc/42/exe'']" by simp
  from b4 r have c4: "instrumented_libs (tracer (snd ?step)) = {}" by simp
  from h b1 c3 c4 e2 w1 h1 h3 e4 e5 e6 w2 show ?thesis by (intro conjI)
qed

subsection \<open>C8: a pair with no program\<close>

text \<open>
  C8. On each of the three attachment paths, a function program pair with neither an
  entry nor a return program makes no attachment call, creates no release handle and
  returns no error: \<open>goprobe\<close>, \<open>kprobe\<close> and \<open>uprobe\<close> return \<open>nil\<close> and leave the
  whole state as it was. In a catalog the loop goes on to the remaining entries.
\<close>

theorem no_programs_no_attachment:
  assumes "Start funcPrograms = None" and "End funcPrograms = None"
  shows "goprobe w \<lparr>Offsets = offs, Programs = funcPrograms\<rparr> s = (None, s)
    \<and> kprobe w funcName funcPrograms s = (None, s)
    \<and> uprobe w funcName libExe funcPrograms s = (None, s)
    \<and> goprobes_loop w ((funcName, funcPrograms) # rest) s
        = goprobes_loop w rest
            (if Funcs (offsets (inst s)) funcName = None then s else add_closables s)
    \<and> kprobes_loop w ((funcName, funcPrograms) # rest) s
        = kprobes_loop w rest (add_closables s)
    \<and> uprobes_funcs w libExe ((funcName, funcPrograms) # rest) s
        = uprobes_funcs w libExe rest (add_closables s)
    \<and> closables (inst (add_closables s)) = closables (inst s)
    \<and> attempts (add_closables s) = attempts s"
proof -
  from assms have g: "goprobe w \<lparr>Offsets = offs, Programs = funcPrograms\<rparr> s = (None, s)" for offs
    by (simp add: goprobe_def goprobe_start_def)
  from assms have k: "kprobe w funcName funcPrograms s = (None, s)"
    by (simp add: kprobe_def kprobe_start_def)
  from assms have u: "uprobe w funcName libExe funcPrograms s = (None, s)"
    by (simp add: uprobe_def uprobe_start_def)
  have "goprobes_loop w ((funcName, funcPrograms) # rest) s
        = goprobes_loop w rest
            (if Funcs (offsets (inst s)) funcName = None then s else add_closables s)"
    by (cases "Funcs (offsets (inst s)) funcName") (simp_all add: g)
  moreover have "kprobes_loop w ((funcName, funcPrograms) # rest) s
        = kprobes_loop w rest (add_closables s)"
    by (simp add: k)
  moreover have "uprobes_funcs w libExe ((funcName, funcPrograms) # rest) s
        = uprobes_funcs w libExe rest (add_closables s)"
    by (simp add: u)
  ultimately show ?thesis
    using g [of offs] k u by (simp add: add_closables_simps)
qed

theorem no_programs_no_attachment_witness:
  "Start no_programs = None \<and> End no_programs = None
   \<and> goprobe (ex_os never_fails) \<lparr>Offsets = ex_f_offsets, Programs = no_programs\<rparr> ex_state
       = (None, ex_state)
   \<and> kprobe (ex_os never_fails) ''tcp_connect'' no_programs ex_state = (None, ex_state)
   \<and> uprobe (ex_os never_fails) ''SSL_read'' (Executable ''/proc/42/exe'') no_programs ex_state
       = (None, ex_state)"
proof -
  have h1: "Start no_programs = None" and h2: "End no_programs = None"
    by (simp_all add: no_programs_def)
  from no_programs_no_attachment [OF h1 h2, of "ex_os never_fails" ex_f_offsets ex_state
      "''tcp_connect''" "Executable ''/proc/42/exe''" "[]"]
    no_programs_no_attachment [OF h1 h2, of "ex_os never_fails" ex_f_offsets ex_state
      "''SSL_read''" "Executable ''/proc/42/exe''" "[]"]
  show ?thesis using h1 h2 by blast
qed

subsection \<open>C9: byte order\<close>

text \<open>
  C9. On either host, \<open>htons\<close> applied twice gives the value back. On a little-endian
  host \<open>htons 0x0001 = 0x0100\<close> and \<open>htons 0x0100 = 0x0001\<close>; on a big-endian host
  \<open>htons\<close> is the identity.
\<close>

theorem htons_involution:
  "htons h (htons h a) = a
   \<and> htons LittleEndianHost 0x0001 = 0x0100
   \<and> htons LittleEndianHost 0x0100 = 0x0001
   \<and> htons BigEndianHost a = a"
proof -
  have "htons h (htons h a) = a"
  proof (cases h)
    case LittleEndianHost
    then show ?thesis by (simp only: htons_little swap_bytes_twice)
  next
    case BigEndianHost
    then show ?thesis by (simp only: htons_big)
  qed
  moreover have "htons LittleEndianHost 0x0001 = 0x0100"
    by (simp add: htons_little)
  moreover have "htons LittleEndianHost 0x0100 = 0x0001"
    by (simp add: htons_little)
  ultimately show ?thesis
    by (simp add: htons_big)
qed

subsection \<open>C10: handles delivered to the sink again\<close>

text \<open>
  C10. \<open>p.AddCloser(i.closables...)\<close> appends the whole list of closables to the sink
  and leaves the list as it is; no method of the instrumenter shortens it. Hence for a
  handle \<open>h\<close> made by an attachment call before the state \<open>s\<close>: a run of the loop of
  \<open>kprobes\<close>, of \<open>goprobes\<close> or of \<open>uprobes\<close> over one library's functions that
  starts in \<open>s\<close> and returns no error delivers every copy of \<open>h\<close> in the closables to
  the sink once more for each function it completes (each kernel function; each
  main-binary function present in the offset resolver; each library function). The
  state \<open>s\<close> may be reached inside one call, after the earlier functions of the same
  catalog, or between calls: the instrumenter is the same across the entry points.
\<close>

theorem earlier_handles_delivered_again:
  assumes "link_id h < length (attempts s)"
  shows "closers (tracer (add_closables s)) = closers (tracer s) @ closables (inst s)
    \<and> closables (inst (add_closables s)) = closables (inst s)
    \<and> (kprobes_loop w fs s = (None, s') \<longrightarrow>
         count_list (closers (tracer s')) h
           = count_list (closers (tracer s)) h
             + count_list (closables (inst s)) h * length fs)
    \<and> (goprobes_loop w fs s = (None, s') \<longrightarrow>
         count_list (closers (tracer s')) h
           = count_list (closers (tracer s)) h
             + count_list (closables (inst s)) h
               * length (filter (\<lambda>(funcName, funcPrograms). Funcs (offsets (inst s)) funcName \<noteq> None) fs))
    \<and> (uprobes_funcs w libExe fs s = (None, s') \<longrightarrow>
         count_list (closers (tracer s')) h
           = count_list (closers (tracer s)) h
             + count_list (closables (inst s)) h * length fs)"
proof (intro conjI impI)
  show "closers (tracer (add_closables s)) = closers (tracer s) @ closables (inst s)"
    by (simp add: add_closables_simps)
  show "closables (inst (add_closables s)) = closables (inst s)"
    by (simp add: add_closables_simps)
next
  assume "kprobes_loop w fs s = (None, s')"
  from kprobes_loop_redelivers_exactly [OF this assms]
  show "count_list (closers (tracer s')) h
           = count_list (closers (tracer s)) h
             + count_list (closables (inst s)) h * length fs" .
next
  assume "goprobes_loop w fs s = (None, s')"
  from goprobes_loop_redelivers_exactly [OF this assms refl]
  show "count_list (closers (tracer s')) h
           = count_list (closers (tracer s)) h
             + count_list (closables (inst s)) h
               * length (filter (\<lambda>(funcName, funcPrograms). Funcs (offsets (inst s)) funcName \<noteq> None) fs)" .
next
  assume "uprobes_funcs w libExe fs s = (None, s')"
  from uprobes_funcs_redelivers_exactly [OF this assms]
  show "count_list (closers (tracer s')) h
           = count_list (closers (tracer s)) h
             + count_list (closables (inst s)) h * length fs" .
qed

text \<open>
  In the example \<open>kprobes\<close> runs first and makes the handle of \<open>tcp_connect\<close>, which it
  hands to the sink. \<open>goprobes\<close> then attaches two functions and hands the same handle
  over twice more: the sink holds it three times.
\<close>

theorem earlier_handles_delivered_again_witness:
  "fst (kprobes (ex_os never_fails) ex_state) = None
   \<and> closables (inst (snd (kprobes (ex_os never_fails) ex_state)))
       = [Link 0 (Kprobe ''tcp_connect'' 4)]
   \<and> closers (tracer (snd (kprobes (ex_os never_fails) ex_state)))
       = [Link 0 (Kprobe ''tcp_connect'' 4)]
   \<and> link_id (Link 0 (Kprobe ''tcp_connect'' 4))
       < length (attempts (snd (kprobes (ex_os never_fails) ex_state)))
   \<and> fst (goprobes (ex_os never_fails) (snd (kprobes (ex_os never_fails) ex_state))) = None
   \<and> count_list
        (closers (tracer (snd (goprobes (ex_os never_fails)
                                 (snd (kprobes (ex_os never_fails) ex_state))))))
        (Link 0 (Kprobe ''tcp_connect'' 4)) = 3"
proof -
  let ?w = "ex_os never_fails"
  let ?h = "Link 0 (Kprobe ''tcp_connect'' 4)"
  let ?k = "snd (kprobes ?w ex_state)"
  let ?g = "goprobes ?w ?k"
  have k: "kprobes ?w ex_state =
      (None, ex_state\<lparr>inst := ex_instrumenter\<lparr>closables := [?h]\<rparr>,
                      tracer := ex_tracer\<lparr>closers := [?h]\<rparr>,
                      attempts := [Kprobe ''tcp_connect'' 4]\<rparr>)"
    by (simp add: ex_defs run_defs)
  have k1: "fst (kprobes ?w ex_state) = None"
    and k2: "closables (inst ?k) = [?h]" and k3: "closers (tracer ?k) = [?h]"
    and h1: "link_id ?h < length (attempts ?k)"
    and n: "length (filter (\<lambda>(funcName, funcPrograms). Funcs (offsets (inst ?k)) funcName \<noteq> None)
                           (GoProbes (tracer ?k))) = 2"
    unfolding k by (simp_all add: ex_defs)
  have g: "fst ?g = None"
    unfolding k by (simp add: ex_defs run_defs)
  then have "?g = (None, snd ?g)" by (metis prod.collapse)
  then have h2: "goprobes_loop ?w (GoProbes (tracer ?k)) ?k = (None, snd ?g)"
    by (simp add: goprobes_def)
  from earlier_handles_delivered_again [OF h1, of "?w" "GoProbes (tracer ?k)" "snd ?g"] h2
  have "count_list (closers (tracer (snd ?g))) ?h
           = count_list (closers (tracer ?k)) ?h
             + count_list (closables (inst ?k)) ?h
               * length (filter (\<lambda>(funcName, funcPrograms). Funcs (offsets (inst ?k)) funcName \<noteq> None)
                           (GoProbes (tracer ?k)))"
    by blast
  then have "count_list (closers (tracer (snd ?g))) ?h = 3"
    unfolding k2 k3 n by simp
  with k1 k2 k3 h1 g show ?thesis by blast
qed

end
